theory Spec2Isabelle
  imports Complex_Main "HOL-Library.Log_Nat"
begin

section \<open>The arithmetic of JavaScript numbers\<close>

text \<open>
  Every number of the script is an IEEE 754 binary64 value, and every \<open>+\<close>, \<open>-\<close>,
  \<open>*\<close> and \<open>/\<close> returns the exact result rounded to the nearest binary64 value,
  ties to the even significand. A value is a real number here; \<open>rnd\<close> is the rounding,
  with 53 bits of significand and the least exponent \<open>-1022\<close> (so the subnormal range
  is rounded to multiples of \<open>2^-1074\<close>). Results of magnitude \<open>2^1024\<close> and more,
  which the source turns into \<open>Infinity\<close>, the sign of zero and \<open>NaN\<close> among the
  camera values are outside the model.
\<close>

text \<open>The nearest integer, a tie going to the even one.\<close>

definition roundEven :: "real \<Rightarrow> int" where
  "roundEven m =
     (let f = \<lfloor>m\<rfloor>; r = m - real_of_int f
      in if r < 1 / 2 then f else if 1 / 2 < r then f + 1 else if even f then f else f + 1)"

text \<open>
  For \<open>a > 0\<close>, the integer \<open>e\<close> with \<open>2^e \<le> a < 2^(e+1)\<close> (\<open>exponent_bounds\<close>), from
  the bit length of the integer part of \<open>a\<close> or of \<open>1 / a\<close>.
\<close>

definition exponent :: "real \<Rightarrow> int" where
  "exponent a = (if 1 \<le> a then bitlen \<lfloor>a\<rfloor> - 1 else - bitlen (\<lceil>1 / a\<rceil> - 1))"

text \<open>The distance between neighbouring binary64 values around \<open>x\<close>.\<close>

definition ulp :: "real \<Rightarrow> real" where
  "ulp x = 2 powi (max (exponent \<bar>x\<bar>) (- 1022) - 52)"

definition rnd :: "real \<Rightarrow> real" where
  "rnd x = (if x = 0 then 0 else real_of_int (roundEven (x / ulp x)) * ulp x)"

definition fadd :: "real \<Rightarrow> real \<Rightarrow> real" where
  "fadd x y = rnd (x + y)"

definition fsub :: "real \<Rightarrow> real \<Rightarrow> real" where
  "fsub x y = rnd (x - y)"

definition fmul :: "real \<Rightarrow> real \<Rightarrow> real" where
  "fmul x y = rnd (x * y)"

definition fdiv :: "real \<Rightarrow> real \<Rightarrow> real" where
  "fdiv x y = rnd (x / y)"

section \<open>Numbers and strings of the script\<close>

text \<open>
  The script \<open>script.js\<close> stores the live cells of Conway's Game of Life in a JavaScript
  \<open>Set\<close> of strings \<open>"x,y"\<close>. Cell coordinates are integer-valued JavaScript
  numbers: an integer here, with one extra value \<open>NaN\<close> for what \<open>Number\<close> returns on
  a string that is no number. Integers up to \<open>2^53\<close> in absolute value are binary64
  values, printed and read back digit by digit; beyond that the source prints and reads
  the nearest binary64 value, which the functions on strings below do not model.
\<close>

datatype number = Num int | NaN

text \<open>
  \<open>x + d\<close> for two integer-valued numbers: the binary64 sum, which is an integer
  again. It is \<open>x + d\<close> up to \<open>2^53\<close> in absolute value (\<open>addCoord_exact\<close>), and
  for instance \<open>2^53 + 1 = 2^53\<close> (\<open>addCoord_top\<close>).
\<close>

definition addCoord :: "int \<Rightarrow> int \<Rightarrow> int" where
  "addCoord x d = \<lfloor>fadd (real_of_int x) (real_of_int d)\<rfloor>"

text \<open>\<open>x + dx\<close> for an integer offset \<open>dx\<close>; \<open>NaN + dx\<close> is \<open>NaN\<close>.\<close>

fun plus_number :: "number \<Rightarrow> int \<Rightarrow> number" where
  "plus_number (Num x) d = Num (addCoord x d)"
| "plus_number NaN d = NaN"

subsection \<open>Number to string: the template literal\<close>

definition digit_char :: "nat \<Rightarrow> char" where
  "digit_char d = char_of (48 + d)"

fun digits :: "nat \<Rightarrow> string" where
  "digits n = (if n < 10 then [digit_char n] else digits (n div 10) @ [digit_char (n mod 10)])"

declare digits.simps [simp del]

text \<open>
  \<open>ToString\<close> is what a template literal \<open>`${x}`\<close> prints for a number: the decimal
  digits, after a minus sign for a negative integer, and \<open>NaN\<close> for \<open>NaN\<close>.
\<close>

fun ToString :: "number \<Rightarrow> string" where
  "ToString (Num i) = (if i < 0 then CHR ''-'' # digits (nat (- i)) else digits (nat i))"
| "ToString NaN = ''NaN''"

text \<open>\<^verbatim>\<open>function cellKey(x, y) { return `${x},${y}`; }\<close>\<close>

definition cellKey :: "number \<Rightarrow> number \<Rightarrow> string" where
  "cellKey x y = ToString x @ '','' @ ToString y"

subsection \<open>String to number: \<open>split\<close> and \<open>Number\<close>\<close>

text \<open>
  \<open>k.split(',')\<close>: the pieces of \<open>k\<close> between commas; a string without a comma
  (the empty one too) gives one piece.
\<close>

fun split :: "char \<Rightarrow> string \<Rightarrow> string list" where
  "split c [] = [Nil]"
| "split c (x # xs) =
     (if x = c then [] # split c xs
      else (case split c xs of w # ws \<Rightarrow> (x # w) # ws | [] \<Rightarrow> [x # Nil]))"

definition isDigit :: "char \<Rightarrow> bool" where
  "isDigit c = (48 \<le> (of_char c :: nat) \<and> (of_char c :: nat) \<le> 57)"

definition digitValue :: "char \<Rightarrow> nat" where
  "digitValue c = of_char c - 48"

definition decimalValue :: "string \<Rightarrow> nat" where
  "decimalValue ds = foldl (\<lambda>n c. 10 * n + digitValue c) 0 ds"

definition allDigits :: "string \<Rightarrow> bool" where
  "allDigits ds = (ds \<noteq> [] \<and> list_all isDigit ds)"

text \<open>
  \<open>Number(s)\<close> on the strings this model covers: the empty string is \<open>0\<close>, an optional
  sign followed by decimal digits is that integer, and every other string is \<open>NaN\<close>.
  (JavaScript also reads white space, fractions, exponents, other radices and
  \<open>Infinity\<close>; no key of the script has any of them, see \<open>wfKey\<close> below.)
\<close>

definition Number :: "string \<Rightarrow> number" where
  "Number s =
     (case s of
        [] \<Rightarrow> Num 0
      | c # ds \<Rightarrow>
          if c = CHR ''-'' then (if allDigits ds then Num (- int (decimalValue ds)) else NaN)
          else if c = CHR ''+'' then (if allDigits ds then Num (int (decimalValue ds)) else NaN)
          else if allDigits s then Num (int (decimalValue s)) else NaN)"

text \<open>\<^verbatim>\<open>function parseKey(k) { return k.split(',').map(Number); }\<close>\<close>

definition parseKey :: "string \<Rightarrow> number list" where
  "parseKey k = map Number (split CHR '','' k)"

text \<open>
  The destructuring \<open>let [x, y] = parseKey(key)\<close>: the first two elements of the
  array. A missing element is \<open>undefined\<close>; the script only ever adds an offset to
  \<open>x\<close> and \<open>y\<close>, which turns \<open>undefined\<close> into \<open>NaN\<close>, so it is \<open>NaN\<close> here.
\<close>

fun destructure2 :: "number list \<Rightarrow> number \<times> number" where
  "destructure2 [] = (NaN, NaN)"
| "destructure2 [x] = (x, NaN)"
| "destructure2 (x # y # _) = (x, y)"

section \<open>The sparse grid and the generation engine\<close>

text \<open>
  \<open>aliveCells\<close> is a JavaScript \<open>Set\<close> of key strings: no key twice, iterated in
  insertion order. It is a list without duplicates, the oldest key first.
\<close>

type_synonym cells = "string list"

definition Set_has :: "string \<Rightarrow> cells \<Rightarrow> bool" where
  "Set_has k s = (k \<in> set s)"

definition Set_add :: "string \<Rightarrow> cells \<Rightarrow> cells" where
  "Set_add k s = (if k \<in> set s then s else s @ [k])"

definition Set_delete :: "string \<Rightarrow> cells \<Rightarrow> cells" where
  "Set_delete k s = removeAll k s"

text \<open>
  The offsets \<open>(dx, dy)\<close> visited by
  \<^verbatim>\<open>for (dy = -1; dy <= 1; dy++) for (dx = -1; dx <= 1; dx++) { if (dx === 0 && dy === 0) continue; ... }\<close>
  in the order of the loops.
\<close>

definition offsets :: "(int \<times> int) list" where
  "offsets = [(dx, dy). dy \<leftarrow> [-1, 0, 1], dx \<leftarrow> [-1, 0, 1], \<not> (dx = 0 \<and> dy = 0)]"

text \<open>
  \<^verbatim>\<open>coords.forEach(([cx, cy]) => aliveCells.add(cellKey(cx, cy)))\<close> over the five cells
  of the glider.
\<close>

definition initGlider :: "int \<Rightarrow> int \<Rightarrow> cells \<Rightarrow> cells" where
  "initGlider x y aliveCells =
     (let coords = [(x + 1, y), (x + 2, y + 1), (x, y + 2), (x + 1, y + 2), (x + 2, y + 2)]
      in fold (\<lambda>(cx, cy) a. Set_add (cellKey (Num cx) (Num cy)) a) coords aliveCells)"

text \<open>\<open>getNeighbors\<close> reads the global \<open>aliveCells\<close>, here its first argument.\<close>

definition getNeighbors :: "cells \<Rightarrow> number \<Rightarrow> number \<Rightarrow> nat" where
  "getNeighbors aliveCells x y =
     fold (\<lambda>(dx, dy) neighbors.
             if Set_has (cellKey (plus_number x dx) (plus_number y dy)) aliveCells
             then neighbors + 1 else neighbors)
          offsets 0"

text \<open>The body of the first \<open>forEach\<close> of \<open>nextGen\<close>: a live key and its eight neighbours
  become candidates.\<close>

definition addCandidates :: "string \<Rightarrow> cells \<Rightarrow> cells" where
  "addCandidates key candidates =
     (case destructure2 (parseKey key) of
        (x, y) \<Rightarrow>
          fold (\<lambda>(dx, dy) c. Set_add (cellKey (plus_number x dx) (plus_number y dy)) c)
               offsets (Set_add key candidates))"

text \<open>The body of the second \<open>forEach\<close>: the rule of Life for one candidate, read
  against \<open>aliveCells\<close>, which is still the set before the advance.\<close>

definition decide :: "cells \<Rightarrow> string \<Rightarrow> cells \<Rightarrow> cells" where
  "decide aliveCells key newAlive =
     (case destructure2 (parseKey key) of
        (x, y) \<Rightarrow>
          let alive = Set_has key aliveCells;
              neighbors = getNeighbors aliveCells x y
          in if alive \<and> (neighbors = 2 \<or> neighbors = 3) then Set_add key newAlive
             else if \<not> alive \<and> neighbors = 3 then Set_add key newAlive
             else newAlive)"

text \<open>
  \<open>nextGen\<close> returns the set that the source assigns to \<open>aliveCells\<close> in its last
  line. Neither loop changes the set it iterates over.
\<close>

definition nextGen :: "cells \<Rightarrow> cells" where
  "nextGen aliveCells =
     (let candidates = fold addCandidates aliveCells [];
          newAlive = fold (decide aliveCells) candidates []
      in newAlive)"

subsection \<open>The same engine on coordinate pairs\<close>

text \<open>
  The key of a cell, and the engine with coordinate pairs in place of key strings. These
  are not in the source: they are what the source's loops do once the strings are read
  back as the pairs they encode (\<open>nextGen_map_keyOf\<close> below), and they let a generation
  be evaluated on integers.
\<close>

definition keyOf :: "int \<times> int \<Rightarrow> string" where
  "keyOf c = cellKey (Num (fst c)) (Num (snd c))"

definition addCell :: "int \<times> int \<Rightarrow> (int \<times> int) list \<Rightarrow> (int \<times> int) list" where
  "addCell c cs = (if c \<in> set cs then cs else cs @ [c])"

definition countCells :: "(int \<times> int) list \<Rightarrow> int \<times> int \<Rightarrow> nat" where
  "countCells cs c =
     fold (\<lambda>(dx, dy) n.
             if (addCoord (fst c) dx, addCoord (snd c) dy) \<in> set cs then n + 1 else n)
          offsets 0"

definition addCandidateCells :: "int \<times> int \<Rightarrow> (int \<times> int) list \<Rightarrow> (int \<times> int) list" where
  "addCandidateCells c cand =
     fold (\<lambda>(dx, dy) a. addCell (addCoord (fst c) dx, addCoord (snd c) dy) a)
          offsets (addCell c cand)"

definition decideCell ::
  "(int \<times> int) list \<Rightarrow> int \<times> int \<Rightarrow> (int \<times> int) list \<Rightarrow> (int \<times> int) list" where
  "decideCell cs c new =
     (if c \<in> set cs \<and> (countCells cs c = 2 \<or> countCells cs c = 3) then addCell c new
      else if c \<notin> set cs \<and> countCells cs c = 3 then addCell c new
      else new)"

definition nextGenCells :: "(int \<times> int) list \<Rightarrow> (int \<times> int) list" where
  "nextGenCells cs = fold (decideCell cs) (fold addCandidateCells cs []) []"

subsection \<open>The rule of Life on sets of cells\<close>

text \<open>
  The transition as the specification words it, on sets of coordinate pairs: the
  candidates are the live cells and their Moore neighbourhoods; a live candidate survives
  with exactly two or three live neighbours, a dead one is born with exactly three.
\<close>

definition moore :: "int \<times> int \<Rightarrow> (int \<times> int) set" where
  "moore c = (\<lambda>(dx, dy). (fst c + dx, snd c + dy)) ` (({-1, 0, 1} \<times> {-1, 0, 1}) - {(0, 0)})"

definition liveNeighbours :: "(int \<times> int) set \<Rightarrow> int \<times> int \<Rightarrow> nat" where
  "liveNeighbours A c = card (moore c \<inter> A)"

definition candidateCells :: "(int \<times> int) set \<Rightarrow> (int \<times> int) set" where
  "candidateCells A = A \<union> (\<Union>c\<in>A. moore c)"

definition liveNext :: "(int \<times> int) set \<Rightarrow> int \<times> int \<Rightarrow> bool" where
  "liveNext A c =
     (if c \<in> A then liveNeighbours A c = 2 \<or> liveNeighbours A c = 3
      else liveNeighbours A c = 3)"

definition lifeStep :: "(int \<times> int) set \<Rightarrow> (int \<times> int) set" where
  "lifeStep A = Set.filter (liveNext A) (candidateCells A)"

text \<open>
  A key is well formed when it is the key of the cell it parses to; \<open>cellsOf\<close> reads a
  set of keys as the set of cells.
\<close>

definition keyCell :: "string \<Rightarrow> int \<times> int" where
  "keyCell k = (case destructure2 (parseKey k) of (Num x, Num y) \<Rightarrow> (x, y) | _ \<Rightarrow> (0, 0))"

definition wfKey :: "string \<Rightarrow> bool" where
  "wfKey k = (k = keyOf (keyCell k))"

definition cellsOf :: "cells \<Rightarrow> (int \<times> int) set" where
  "cellsOf ks = keyCell ` set ks"

text \<open>
  A cell whose coordinates are safe integers, at most \<open>2^53 - 1\<close> in absolute value
  (\<open>Number.MAX_SAFE_INTEGER\<close>): all its neighbours are binary64 values.
\<close>

definition safeCell :: "int \<times> int \<Rightarrow> bool" where
  "safeCell c = (\<bar>fst c\<bar> < 2 ^ 53 \<and> \<bar>snd c\<bar> < 2 ^ 53)"

section \<open>The state of the page and its handlers\<close>

text \<open>
  The globals of the script as one record. Camera offsets and zoom are binary64
  numbers, and the handlers compute them with the rounded operations \<open>fadd\<close>,
  \<open>fsub\<close>, \<open>fmul\<close> and \<open>fdiv\<close>. The timestamps of the frame loop are real numbers
  whose sum and difference are taken exactly. \<open>dragStartX\<close> and \<open>dragStartY\<close> are
  declared without a value: \<open>None\<close> is \<open>undefined\<close>.
\<close>

record state =
  width :: int
  height :: int
  aliveCells :: cells
  cameraX :: real
  cameraY :: real
  zoom :: real
  paused :: bool
  delay :: int
  lastFrame :: real
  isDragging :: bool
  dragStartX :: "real option"
  dragStartY :: "real option"
  fps :: nat
  lastFpsUpdate :: real
  framesThisSecond :: nat

text \<open>
  \<open>resizeCanvas\<close> takes \<open>window.innerWidth\<close> and \<open>window.innerHeight\<close> as arguments
  (what the canvas element does with a size out of its range is not modelled).
\<close>

definition resizeCanvas :: "int \<Rightarrow> int \<Rightarrow> state \<Rightarrow> state" where
  "resizeCanvas innerWidth innerHeight s = s\<lparr>width := innerWidth, height := innerHeight - 55\<rparr>"

text \<open>The declarations followed by the runtime section:
  \<open>resizeCanvas(); initGlider(0, 0); ...\<close>.\<close>

definition init :: "int \<Rightarrow> int \<Rightarrow> state" where
  "init innerWidth innerHeight =
     resizeCanvas innerWidth innerHeight
       \<lparr>width = 0, height = 0, aliveCells = initGlider 0 0 [],
        cameraX = - 40, cameraY = - 30, zoom = 10,
        paused = False, delay = 0, lastFrame = 0,
        isDragging = False, dragStartX = None, dragStartY = None,
        fps = 0, lastFpsUpdate = 0, framesThisSecond = 0\<rparr>"

subsection \<open>Coordinate transforms\<close>

text \<open>\<^verbatim>\<open>let sx = Math.floor((x - cameraX) * zoom);\<close> and the same for \<open>sy\<close>, in \<open>drawGrid\<close>.\<close>

definition drawGrid_sx :: "state \<Rightarrow> int \<Rightarrow> int" where
  "drawGrid_sx s x = \<lfloor>fmul (fsub (real_of_int x) (cameraX s)) (zoom s)\<rfloor>"

definition drawGrid_sy :: "state \<Rightarrow> int \<Rightarrow> int" where
  "drawGrid_sy s y = \<lfloor>fmul (fsub (real_of_int y) (cameraY s)) (zoom s)\<rfloor>"

text \<open>\<^verbatim>\<open>let wx = Math.floor(cameraX + mx / zoom);\<close> and the same for \<open>wy\<close>, in \<open>onClick\<close>.\<close>

definition onClick_wx :: "state \<Rightarrow> real \<Rightarrow> int" where
  "onClick_wx s mx = \<lfloor>fadd (cameraX s) (fdiv mx (zoom s))\<rfloor>"

definition onClick_wy :: "state \<Rightarrow> real \<Rightarrow> int" where
  "onClick_wy s my = \<lfloor>fadd (cameraY s) (fdiv my (zoom s))\<rfloor>"

text \<open>
  \<open>drawGrid\<close> changes no global; its result here is the list of cell rectangles
  \<open>(sx, sy, zoom, zoom)\<close> it fills. A key whose coordinates are \<open>NaN\<close> fails every
  comparison of the visibility test and is not drawn.
\<close>

definition drawGrid :: "state \<Rightarrow> (int \<times> int \<times> real \<times> real) list" where
  "drawGrid s =
     concat (map (\<lambda>key.
       case destructure2 (parseKey key) of
         (Num x, Num y) \<Rightarrow>
           let sx = drawGrid_sx s x; sy = drawGrid_sy s y
           in if fadd (real_of_int sx) (zoom s) \<ge> 0 \<and> fadd (real_of_int sy) (zoom s) \<ge> 0
                 \<and> sx < width s \<and> sy < height s
              then [(sx, sy, zoom s, zoom s)] else []
       | _ \<Rightarrow> []) (aliveCells s))"

subsection \<open>The frame loop\<close>

text \<open>
  One call of \<open>loop(timestamp)\<close>; the \<open>requestAnimationFrame(loop)\<close> at its end asks
  for the next call. \<open>!lastFrame\<close> holds when \<open>lastFrame\<close> is \<open>0\<close>.
\<close>

definition loop :: "real \<Rightarrow> state \<Rightarrow> state" where
  "loop timestamp s =
     (let s1 = (if timestamp > lastFpsUpdate s + 1000
                then s\<lparr>fps := framesThisSecond s, framesThisSecond := 0,
                       lastFpsUpdate := timestamp\<rparr>
                else s);
          s2 = s1\<lparr>framesThisSecond := framesThisSecond s1 + 1\<rparr>;
          s3 = (if lastFrame s2 = 0 then s2\<lparr>lastFrame := timestamp\<rparr> else s2)
      in if \<not> paused s3 \<and> timestamp - lastFrame s3 > real_of_int (delay s3)
         then s3\<lparr>aliveCells := nextGen (aliveCells s3), lastFrame := timestamp\<rparr>
         else s3)"

subsection \<open>Event handlers\<close>

definition onResize :: "int \<Rightarrow> int \<Rightarrow> state \<Rightarrow> state" where
  "onResize innerWidth innerHeight s = resizeCanvas innerWidth innerHeight s"

definition onMouseDown :: "int \<Rightarrow> real \<Rightarrow> real \<Rightarrow> state \<Rightarrow> state" where
  "onMouseDown button clientX clientY s =
     (if button \<noteq> 0 then s
      else s\<lparr>isDragging := True, dragStartX := Some clientX, dragStartY := Some clientY\<rparr>)"

definition onMouseUp :: "int \<Rightarrow> state \<Rightarrow> state" where
  "onMouseUp button s = (if button \<noteq> 0 then s else s\<lparr>isDragging := False\<rparr>)"

definition onMouseLeave :: "state \<Rightarrow> state" where
  "onMouseLeave s = s\<lparr>isDragging := False\<rparr>"

text \<open>
  While dragging, both anchors are set (\<open>drag_anchor_set\<close> below): \<open>onMouseDown\<close> is the
  only handler that sets \<open>isDragging\<close>. In the other case the source would compute with
  \<open>undefined\<close> and store \<open>NaN\<close>, which the camera of the model cannot hold; the model
  leaves the state as it is there.
\<close>

definition onMouseMove :: "real \<Rightarrow> real \<Rightarrow> state \<Rightarrow> state" where
  "onMouseMove clientX clientY s =
     (if isDragging s then
        (case (dragStartX s, dragStartY s) of
           (Some startX, Some startY) \<Rightarrow>
             let dx = fdiv (fsub clientX startX) (zoom s);
                 dy = fdiv (fsub clientY startY) (zoom s)
             in s\<lparr>cameraX := fsub (cameraX s) dx, cameraY := fsub (cameraY s) dy,
                  dragStartX := Some clientX, dragStartY := Some clientY\<rparr>
         | _ \<Rightarrow> s)
      else s)"

text \<open>
  The paint tool. \<open>random n\<close> is what the \<open>n\<close>-th call of \<open>Math.random()\<close> during the
  handler returns, a number in \<open>[0, 1)\<close>; the second component of the loop state counts
  the calls made so far.
\<close>

definition paintCell :: "(nat \<Rightarrow> real) \<Rightarrow> int \<Rightarrow> int \<Rightarrow> cells \<times> nat \<Rightarrow> cells \<times> nat" where
  "paintCell random x y st =
     (case st of (alive_cells, n) \<Rightarrow>
        let key = cellKey (Num x) (Num y);
            alive = \<lfloor>fmul (random n) 2\<rfloor>
        in if alive \<noteq> 0 then (Set_add key alive_cells, n + 1)
           else (if Set_has key alive_cells then Set_delete key alive_cells else alive_cells,
                 n + 1))"

text \<open>\<^verbatim>\<open>for (let y = wy - 50; y <= wy + 50; y++) { ... }\<close>, from the current \<open>y\<close>.\<close>

function paintColumn ::
  "(nat \<Rightarrow> real) \<Rightarrow> int \<Rightarrow> int \<Rightarrow> int \<Rightarrow> cells \<times> nat \<Rightarrow> cells \<times> nat" where
  "paintColumn random x wy y st =
     (if y \<le> wy + 50 then paintColumn random x wy (y + 1) (paintCell random x y st) else st)"
  by pat_completeness auto
termination
  by (relation "measure (\<lambda>(random, x, wy, y, st). nat (wy + 51 - y))") auto

declare paintColumn.simps [simp del]

text \<open>\<^verbatim>\<open>for (let x = wx - 50; x <= wx + 50; x++) { ... }\<close>, from the current \<open>x\<close>.\<close>

function paintSquare ::
  "(nat \<Rightarrow> real) \<Rightarrow> int \<Rightarrow> int \<Rightarrow> int \<Rightarrow> cells \<times> nat \<Rightarrow> cells \<times> nat" where
  "paintSquare random wx wy x st =
     (if x \<le> wx + 50
      then paintSquare random wx wy (x + 1) (paintColumn random x wy (wy - 50) st)
      else st)"
  by pat_completeness auto
termination
  by (relation "measure (\<lambda>(random, wx, wy, x, st). nat (wx + 51 - x))") auto

declare paintSquare.simps [simp del]

text \<open>\<open>rectLeft\<close> and \<open>rectTop\<close> are the corner of \<open>canvas.getBoundingClientRect()\<close>.\<close>

definition onClick :: "real \<Rightarrow> real \<Rightarrow> real \<Rightarrow> real \<Rightarrow> (nat \<Rightarrow> real) \<Rightarrow> state \<Rightarrow> state" where
  "onClick clientX clientY rectLeft rectTop random s =
     (if isDragging s \<or> \<not> paused s then s
      else
        let mx = fsub clientX rectLeft;
            my = fsub clientY rectTop;
            wx = onClick_wx s mx;
            wy = onClick_wy s my
        in s\<lparr>aliveCells := fst (paintSquare random wx wy (wx - 50) (aliveCells s, 0))\<rparr>)"

text \<open>The literals \<open>1.1\<close> and \<open>0.9\<close> are the binary64 values nearest to them.\<close>

definition onWheel :: "real \<Rightarrow> real \<Rightarrow> real \<Rightarrow> real \<Rightarrow> real \<Rightarrow> state \<Rightarrow> state" where
  "onWheel clientX clientY rectLeft rectTop deltaY s =
     (let mouseX = fsub clientX rectLeft;
          mouseY = fsub clientY rectTop;
          wxBeforeZoom = fadd (cameraX s) (fdiv mouseX (zoom s));
          wyBeforeZoom = fadd (cameraY s) (fdiv mouseY (zoom s));
          zoomFactor = (if deltaY < 0 then rnd (11 / 10) else rnd (9 / 10));
          zoom' = min 50 (max 1 (fmul (zoom s) zoomFactor))
      in s\<lparr>zoom := zoom',
           cameraX := fsub wxBeforeZoom (fdiv mouseX zoom'),
           cameraY := fsub wyBeforeZoom (fdiv mouseY zoom')\<rparr>)"

definition onPauseClick :: "state \<Rightarrow> state" where
  "onPauseClick s = s\<lparr>paused := \<not> paused s\<rparr>"

definition onSpeedUpClick :: "state \<Rightarrow> state" where
  "onSpeedUpClick s = s\<lparr>delay := max 0 (delay s - 20)\<rparr>"

definition onSpeedDownClick :: "state \<Rightarrow> state" where
  "onSpeedDownClick s = s\<lparr>delay := delay s + 20\<rparr>"

subsection \<open>Runs of the page\<close>

text \<open>What the listeners of the script can receive, with the arguments the handlers read.\<close>

datatype event =
    Resize int int
  | MouseDown int real real
  | MouseUp int
  | MouseLeave
  | MouseMove real real
  | Click real real real real "nat \<Rightarrow> real"
  | Wheel real real real real real
  | PauseClick
  | SpeedUpClick
  | SpeedDownClick
  | Frame real

fun handle :: "event \<Rightarrow> state \<Rightarrow> state" where
  "handle (Resize w h) s = onResize w h s"
| "handle (MouseDown b x y) s = onMouseDown b x y s"
| "handle (MouseUp b) s = onMouseUp b s"
| "handle MouseLeave s = onMouseLeave s"
| "handle (MouseMove x y) s = onMouseMove x y s"
| "handle (Click x y l t r) s = onClick x y l t r s"
| "handle (Wheel x y l t d) s = onWheel x y l t d s"
| "handle PauseClick s = onPauseClick s"
| "handle SpeedUpClick s = onSpeedUpClick s"
| "handle SpeedDownClick s = onSpeedDownClick s"
| "handle (Frame t) s = loop t s"

fun isWheel :: "event \<Rightarrow> bool" where
  "isWheel (Wheel x y l t d) = True"
| "isWheel _ = False"

text \<open>The state after a list of events, the first event first.\<close>

definition run :: "event list \<Rightarrow> state \<Rightarrow> state" where
  "run es s = fold handle es s"

inductive reachable :: "state \<Rightarrow> bool" where
  start: "reachable (init w h)"
| step: "reachable s \<Longrightarrow> reachable (handle e s)"

subsection \<open>Names used in the statements\<close>

text \<open>The invariant of the live set: well-formed keys, none of them twice.\<close>

definition goodCells :: "cells \<Rightarrow> bool" where
  "goodCells ks = (list_all wfKey ks \<and> distinct ks)"

text \<open>
  A run of the page: a drag by five pixels to the right at zoom 10, then 22 wheel steps
  out with the pointer at the corner of the canvas.
\<close>

definition zoomedOut :: "event list" where
  "zoomedOut =
     [MouseDown 0 100 100, MouseMove 105 100, MouseUp 0] @ replicate 22 (Wheel 0 0 0 0 1)"

section \<open>Properties of the rounding\<close>

lemma roundEven_error: "\<bar>real_of_int (roundEven m) - m\<bar> \<le> 1 / 2"
  unfolding roundEven_def Let_def by (auto; linarith)

lemma roundEven_of_int: "roundEven (real_of_int n) = n"
  by (simp add: roundEven_def)

lemma exponent_bounds:
  assumes "0 < a"
  shows "2 powi (exponent a) \<le> a" and "a < 2 powi (exponent a + 1)"
proof -
  have "2 powi (exponent a) \<le> a \<and> a < 2 powi (exponent a + 1)"
  proof (cases "1 \<le> a")
    case True
    define n where "n = \<lfloor>a\<rfloor>"
    have n: "0 < n" "real_of_int n \<le> a" "a < real_of_int n + 1"
    proof -
      show "0 < n" using True by (simp add: n_def)
      show "real_of_int n \<le> a" unfolding n_def by (rule of_int_floor_le)
      show "a < real_of_int n + 1" unfolding n_def by linarith
    qed
    define e where "e = bitlen n - 1"
    have b: "2 ^ nat (bitlen n - 1) \<le> n" "n < 2 ^ nat (bitlen n)"
      using bitlen_bounds [OF n(1)] by auto
    have e0: "0 \<le> e"
      using n(1) by (simp add: e_def bitlen_alt_def)
    have ex: "exponent a = e"
      using True by (simp add: exponent_def e_def n_def)
    have p1: "(2::real) powi e = 2 ^ nat e"
      using e0 by (simp add: power_int_def)
    have p2: "(2::real) powi (e + 1) = 2 ^ nat (bitlen n)"
      using e0 by (simp add: power_int_def e_def)
    have "real_of_int (2 ^ nat e) \<le> real_of_int n"
      using b(1) unfolding e_def by (simp only: of_int_le_iff)
    then have "(2::real) ^ nat e \<le> real_of_int n" by simp
    then have l: "2 powi e \<le> a" using n(2) p1 by linarith
    have "n + 1 \<le> 2 ^ nat (bitlen n)" using b(2) by simp
    then have "real_of_int (n + 1) \<le> real_of_int (2 ^ nat (bitlen n))"
      by (simp only: of_int_le_iff)
    then have "real_of_int n + 1 \<le> (2::real) ^ nat (bitlen n)" by simp
    then have u: "a < 2 powi (e + 1)" using n(3) p2 by linarith
    from l u ex show ?thesis by simp
  next
    case False
    define b where "b = 1 / a"
    have b1: "1 < b" using False assms by (simp add: b_def)
    define N where "N = \<lceil>b\<rceil>"
    have N: "2 \<le> N" "b \<le> real_of_int N" "real_of_int N - 1 < b"
    proof -
      show "b \<le> real_of_int N" unfolding N_def by (rule le_of_int_ceiling)
      then have "1 < real_of_int N" using b1 by linarith
      then show "2 \<le> N" by linarith
      show "real_of_int N - 1 < b" unfolding N_def by linarith
    qed
    define j where "j = bitlen (N - 1)"
    have bb: "2 ^ nat (j - 1) \<le> N - 1" "N - 1 < 2 ^ nat j"
      using bitlen_bounds [of "N - 1"] N(1) by (auto simp: j_def)
    have j1: "1 \<le> j"
      using N(1) by (simp add: j_def bitlen_alt_def)
    have ex: "exponent a = - j"
      using False by (simp add: exponent_def j_def N_def b_def)
    have "N \<le> 2 ^ nat j" using bb(2) by simp
    then have "real_of_int N \<le> real_of_int (2 ^ nat j)" by (simp only: of_int_le_iff)
    then have "real_of_int N \<le> (2::real) ^ nat j" by simp
    then have bj: "b \<le> 2 ^ nat j" using N(2) by linarith
    have "real_of_int (2 ^ nat (j - 1)) \<le> real_of_int (N - 1)"
      using bb(1) by (simp only: of_int_le_iff)
    then have "(2::real) ^ nat (j - 1) \<le> real_of_int N - 1" by simp
    then have jb: "2 ^ nat (j - 1) < b" using N(3) by linarith
    have p1: "(2::real) powi (- j) = 1 / 2 ^ nat j"
      using j1 by (simp add: power_int_def field_simps)
    have p2: "(2::real) powi (- j + 1) = 1 / 2 ^ nat (j - 1)"
    proof -
      have "(2::real) powi (- (j - 1)) = 1 / 2 powi (j - 1)"
        by (rule power_int_minus_divide)
      moreover have "(2::real) powi (j - 1) = 2 ^ nat (j - 1)"
        using j1 by (simp add: power_int_def)
      moreover have "- j + 1 = - (j - 1)" by simp
      ultimately show ?thesis by (simp only:)
    qed
    have a: "a = 1 / b" using assms by (simp add: b_def)
    have l: "2 powi (- j) \<le> a"
      unfolding p1 a using bj b1 by (simp add: frac_le)
    have u: "a < 2 powi (- j + 1)"
      unfolding p2 a using jb b1 by (simp add: frac_less2)
    from l u ex show ?thesis by simp
  qed
  then show "2 powi (exponent a) \<le> a" and "a < 2 powi (exponent a + 1)" by auto
qed

lemma exponent_unique:
  assumes "2 powi e \<le> a" and "a < 2 powi (e + 1)"
  shows "exponent a = e"
proof -
  have a: "0 < a" using assms(1) zero_less_power_int [of "2::real" e] by linarith
  note b = exponent_bounds [OF a]
  have "2 powi e < (2::real) powi (exponent a + 1)" using assms(1) b(2) by linarith
  then have "e < exponent a + 1"
    using power_int_increasing [of "exponent a + 1" e "2::real"] by force
  moreover have "2 powi (exponent a) < (2::real) powi (e + 1)" using assms(2) b(1) by linarith
  then have "exponent a < e + 1"
    using power_int_increasing [of "e + 1" "exponent a" "2::real"] by force
  ultimately show ?thesis by simp
qed


lemma ulp_pos: "0 < ulp x"
  by (simp add: ulp_def)

lemma ulp_le:
  assumes "x \<noteq> 0"
  shows "ulp x \<le> \<bar>x\<bar> / 2 ^ 52 \<or> ulp x = 2 powi (- 1074)"
proof (cases "- 1022 \<le> exponent \<bar>x\<bar>")
  case True
  have "(2::real) powi (exponent \<bar>x\<bar> - 52) = 2 powi (exponent \<bar>x\<bar>) / 2 powi 52"
    by (rule power_int_diff) simp
  moreover have "2 powi (exponent \<bar>x\<bar>) \<le> \<bar>x\<bar>"
    using assms by (intro exponent_bounds) simp
  ultimately have "ulp x \<le> \<bar>x\<bar> / 2 ^ 52"
    using True by (simp add: ulp_def max_def divide_right_mono)
  then show ?thesis ..
next
  case False
  then have "ulp x = 2 powi (- 1074)"
    by (simp add: ulp_def max_def)
  then show ?thesis ..
qed

lemma rnd_ulp: "\<bar>rnd x - x\<bar> \<le> ulp x / 2"
proof (cases "x = 0")
  case True
  then show ?thesis using ulp_pos [of x] by (simp add: rnd_def)
next
  case False
  define u where "u = ulp x"
  have u: "0 < u" by (simp add: u_def ulp_pos)
  have "rnd x - x = (real_of_int (roundEven (x / u)) - x / u) * u"
    using False u by (simp add: rnd_def u_def field_simps)
  then have "\<bar>rnd x - x\<bar> = \<bar>real_of_int (roundEven (x / u)) - x / u\<bar> * u"
    using u by (simp add: abs_mult)
  also have "\<dots> \<le> 1 / 2 * u"
    using roundEven_error [of "x / u"] u by (intro mult_right_mono) simp_all
  finally show ?thesis by (simp add: u_def)
qed

lemma tiny_le: "(2::real) powi (- 1074) \<le> 1 / 2 ^ 52"
proof -
  have "(2::real) powi (- 1074) \<le> 2 powi (- 52)"
    by (rule power_int_increasing) simp_all
  then show ?thesis by (simp add: power_int_minus_divide)
qed

lemma rnd_error: "\<bar>rnd x - x\<bar> \<le> (\<bar>x\<bar> + 1) / 2 ^ 53"
proof (cases "x = 0")
  case True
  then show ?thesis by (simp add: rnd_def)
next
  case False
  from ulp_le [OF False] tiny_le have "ulp x \<le> (\<bar>x\<bar> + 1) / 2 ^ 52"
    by (auto simp: add_divide_distrib intro: order_trans)
  with rnd_ulp [of x] show ?thesis by simp
qed

lemma rnd_eval:
  assumes "2 powi e \<le> \<bar>x\<bar>" and "\<bar>x\<bar> < 2 powi (e + 1)" and "- 1022 \<le> e"
  shows "rnd x = real_of_int (roundEven (x / 2 powi (e - 52))) * 2 powi (e - 52)"
proof -
  have "exponent \<bar>x\<bar> = e" using assms(1,2) by (rule exponent_unique)
  moreover have "x \<noteq> 0"
  proof
    assume "x = 0"
    with assms(1) have "(2::real) powi e \<le> 0" by simp
    moreover have "0 < (2::real) powi e" by (rule zero_less_power_int) simp
    ultimately show False by linarith
  qed
  ultimately show ?thesis using assms(3) by (simp add: rnd_def ulp_def max_def)
qed

lemma rnd_dyadic:
  assumes n: "\<bar>n\<bar> < 2 ^ 53" and k: "- 1074 \<le> k"
  shows "rnd (real_of_int n * 2 powi k) = real_of_int n * 2 powi k"
proof (cases "n = 0")
  case True
  then show ?thesis by (simp add: rnd_def)
next
  case False
  define x where "x = real_of_int n * 2 powi k"
  have x0: "x \<noteq> 0" using False by (simp add: x_def)
  define e where "e = max (exponent \<bar>x\<bar>) (- 1022)"
  have ax: "\<bar>x\<bar> = real_of_int \<bar>n\<bar> * 2 powi k"
    by (simp add: x_def abs_mult)
  have "real_of_int \<bar>n\<bar> < real_of_int (2 ^ 53)"
    using n by (simp only: of_int_less_iff)
  then have "real_of_int \<bar>n\<bar> * 2 powi k < 2 ^ 53 * 2 powi k"
    by (intro mult_strict_right_mono) simp_all
  also have "\<dots> = 2 powi (53 + k)"
    by (simp add: power_int_add)
  finally have lt: "\<bar>x\<bar> < 2 powi (53 + k)" by (simp add: ax)
  have "2 powi (exponent \<bar>x\<bar>) \<le> \<bar>x\<bar>"
    using x0 by (intro exponent_bounds) simp
  with lt have "2 powi (exponent \<bar>x\<bar>) < (2::real) powi (53 + k)" by linarith
  then have "exponent \<bar>x\<bar> < 53 + k"
    using power_int_increasing [of "53 + k" "exponent \<bar>x\<bar>" "2::real"] by force
  with k have d: "0 \<le> k - e + 52" by (simp add: e_def)
  have "x / 2 powi (e - 52) = real_of_int n * (2 powi k / 2 powi (e - 52))"
    by (simp add: x_def)
  also have "(2::real) powi k / 2 powi (e - 52) = 2 powi (k - (e - 52))"
    by (rule power_int_diff [symmetric]) simp
  also have "\<dots> = 2 ^ nat (k - e + 52)"
    using d by (simp add: power_int_def algebra_simps)
  finally have "x / 2 powi (e - 52) = real_of_int (n * 2 ^ nat (k - e + 52))"
    by simp
  then have "roundEven (x / 2 powi (e - 52)) = n * 2 ^ nat (k - e + 52)"
    by (simp only: roundEven_of_int)
  then have "rnd x = real_of_int (n * 2 ^ nat (k - e + 52)) * 2 powi (e - 52)"
    using x0 by (simp add: rnd_def ulp_def e_def)
  also have "\<dots> = x / 2 powi (e - 52) * 2 powi (e - 52)"
    using \<open>x / 2 powi (e - 52) = real_of_int (n * 2 ^ nat (k - e + 52))\<close> by simp
  also have "\<dots> = x" by simp
  finally show ?thesis by (simp add: x_def)
qed

lemma rnd_of_int: "\<bar>n\<bar> < 2 ^ 53 \<Longrightarrow> rnd (real_of_int n) = real_of_int n"
  using rnd_dyadic [of n 0] by simp

lemma rnd_halves: "\<bar>n\<bar> < 2 ^ 53 \<Longrightarrow> rnd (real_of_int n / 2) = real_of_int n / 2"
  using rnd_dyadic [of n "- 1"] by (simp add: power_int_minus_divide)

lemma rnd_of_int_le: "\<bar>n\<bar> \<le> 2 ^ 53 \<Longrightarrow> rnd (real_of_int n) = real_of_int n"
proof (cases "\<bar>n\<bar> < 2 ^ 53")
  case True
  then show ?thesis by (rule rnd_of_int)
next
  case False
  assume "\<bar>n\<bar> \<le> 2 ^ 53"
  with False have "n = 2 ^ 53 \<or> n = - (2 ^ 53)" by linarith
  then show ?thesis
    using rnd_dyadic [of 1 53] rnd_dyadic [of "- 1" 53] by auto
qed

section \<open>Properties of the key encoding\<close>

lemma digit_char_value: "d < 10 \<Longrightarrow> digitValue (digit_char d) = d"
  by (simp add: digitValue_def digit_char_def)

lemma digit_char_isDigit: "d < 10 \<Longrightarrow> isDigit (digit_char d)"
  by (simp add: isDigit_def digit_char_def)

lemma digits_nonempty: "digits n \<noteq> []"
  by (subst digits.simps) simp

lemma digits_all: "list_all isDigit (digits n)"
proof (induction n rule: digits.induct)
  case (1 n)
  show ?case
  proof (cases "n < 10")
    case True
    then show ?thesis by (subst digits.simps) (simp add: digit_char_isDigit)
  next
    case False
    with "1" show ?thesis by (subst digits.simps) (simp add: digit_char_isDigit)
  qed
qed

lemma allDigits_digits: "allDigits (digits n)"
  by (simp add: allDigits_def digits_nonempty digits_all)

lemma decimalValue_digits: "decimalValue (digits n) = n"
proof (induction n rule: digits.induct)
  case (1 n)
  show ?case
  proof (cases "n < 10")
    case True
    then show ?thesis
      by (subst digits.simps) (simp add: decimalValue_def digit_char_value)
  next
    case False
    with "1" have "decimalValue (digits (n div 10)) = n div 10" by simp
    with False show ?thesis
      by (subst digits.simps) (simp add: decimalValue_def digit_char_value)
  qed
qed

lemma isDigit_not_comma: "isDigit c \<Longrightarrow> c \<noteq> CHR '',''"
  by (auto simp: isDigit_def)

lemma isDigit_not_sign: "isDigit c \<Longrightarrow> c \<noteq> CHR ''-'' \<and> c \<noteq> CHR ''+''"
  by (auto simp: isDigit_def)

lemma digits_no_comma: "CHR '','' \<notin> set (digits n)"
  using digits_all [of n] isDigit_not_comma by (auto simp: list_all_iff)

lemma ToString_Num_no_comma: "CHR '','' \<notin> set (ToString (Num i))"
  by (simp add: digits_no_comma)

lemma Number_digits: "Number (digits n) = Num (int n)"
proof -
  obtain c ds where cs: "digits n = c # ds"
    using digits_nonempty [of n] by (cases "digits n") auto
  have "isDigit c"
    using digits_all [of n] cs by simp
  then have "c \<noteq> CHR ''-''" "c \<noteq> CHR ''+''"
    using isDigit_not_sign by auto
  moreover have "allDigits (c # ds)" "decimalValue (c # ds) = n"
    using allDigits_digits [of n] decimalValue_digits [of n] cs by auto
  ultimately show ?thesis
    by (simp add: Number_def cs)
qed

lemma Number_ToString: "Number (ToString (Num i)) = Num i"
proof (cases "i < 0")
  case True
  then show ?thesis
    by (simp add: Number_def allDigits_digits decimalValue_digits)
next
  case False
  then show ?thesis
    by (simp add: Number_digits)
qed

lemma split_no_sep: "c \<notin> set s \<Longrightarrow> split c s = [s]"
  by (induction s) auto

lemma split_append: "c \<notin> set a \<Longrightarrow> split c (a @ c # b) = a # split c b"
  by (induction a) auto

lemma parseKey_cellKey: "parseKey (cellKey (Num x) (Num y)) = [Num x, Num y]"
proof -
  have "split CHR '','' (cellKey (Num x) (Num y)) = [ToString (Num x), ToString (Num y)]"
    unfolding cellKey_def
    using split_append [OF ToString_Num_no_comma, of x "ToString (Num y)"]
          split_no_sep [OF ToString_Num_no_comma, of y]
    by simp
  then show ?thesis
    by (simp add: parseKey_def Number_ToString del: ToString.simps)
qed

lemma cellKey_inject:
  "cellKey (Num x1) (Num y1) = cellKey (Num x2) (Num y2) \<longleftrightarrow> x1 = x2 \<and> y1 = y2"
proof
  assume "cellKey (Num x1) (Num y1) = cellKey (Num x2) (Num y2)"
  then have "parseKey (cellKey (Num x1) (Num y1)) = parseKey (cellKey (Num x2) (Num y2))"
    by simp
  then show "x1 = x2 \<and> y1 = y2"
    by (simp add: parseKey_cellKey)
qed simp

section \<open>Sums of coordinates\<close>

lemma addCoord_exact: "\<bar>x + d\<bar> \<le> 2 ^ 53 \<Longrightarrow> addCoord x d = x + d"
  using rnd_of_int_le [of "x + d"] by (simp add: addCoord_def fadd_def)

lemma addCoord_code [code]:
  "addCoord x d =
     (if \<bar>x + d\<bar> \<le> 2 ^ 53 then x + d else \<lfloor>fadd (real_of_int x) (real_of_int d)\<rfloor>)"
  by (simp add: addCoord_exact) (simp add: addCoord_def)

lemma rnd_above_top: "rnd 9007199254740993 = 9007199254740992"
  using rnd_eval [of 53 9007199254740993] by (simp add: roundEven_def)

lemma rnd_below_bottom: "rnd (- 9007199254740993) = - 9007199254740992"
  using rnd_eval [of 53 "- 9007199254740993"] by (simp add: roundEven_def)

lemma addCoord_top: "addCoord 9007199254740992 1 = 9007199254740992"
  by (simp add: addCoord_def fadd_def rnd_above_top)

lemma addCoord_bottom: "addCoord (- 9007199254740992) (- 1) = - 9007199254740992"
  by (simp add: addCoord_def fadd_def rnd_below_bottom)

text \<open>Next to a coordinate within \<open>2^53\<close> the sum is exact or stays at \<open>\<plusminus>2^53\<close>.\<close>

lemma addCoord_near:
  assumes "\<bar>x\<bar> \<le> 2 ^ 53" and "\<bar>d\<bar> \<le> 1"
  shows "addCoord x d = x + d \<or> (\<bar>x + d\<bar> > 2 ^ 53 \<and> \<bar>addCoord x d\<bar> = 2 ^ 53)"
proof (cases "\<bar>x + d\<bar> \<le> 2 ^ 53")
  case True
  then show ?thesis by (simp add: addCoord_exact)
next
  case False
  with assms have "(x = 9007199254740992 \<and> d = 1) \<or> (x = - 9007199254740992 \<and> d = - 1)"
    by auto
  then show ?thesis
    using False by (auto simp: addCoord_top addCoord_bottom)
qed

section \<open>The engine on keys is the engine on cells\<close>

lemma keyOf_inject: "keyOf c = keyOf d \<longleftrightarrow> c = d"
  by (cases c, cases d) (simp add: keyOf_def cellKey_inject)

lemma inj_keyOf: "inj keyOf"
  by (simp add: inj_def keyOf_inject)

lemma keyOf_in_image: "keyOf c \<in> keyOf ` A \<longleftrightarrow> c \<in> A"
  using inj_keyOf by (simp add: inj_image_mem_iff)

lemma destructure2_keyOf: "destructure2 (parseKey (keyOf c)) = (Num (fst c), Num (snd c))"
  by (simp add: keyOf_def parseKey_cellKey)

lemma keyCell_keyOf: "keyCell (keyOf c) = c"
  by (simp add: keyCell_def destructure2_keyOf)

lemma wfKey_keyOf: "wfKey (keyOf c)"
  by (simp add: wfKey_def keyCell_keyOf)

lemma wf_keys_map: "(\<forall>k\<in>set ks. wfKey k) \<Longrightarrow> ks = map keyOf (map keyCell ks)"
  by (induction ks) (auto simp: wfKey_def)

lemma cellsOf_map_keyOf: "cellsOf (map keyOf cs) = set cs"
  by (simp add: cellsOf_def image_image keyCell_keyOf)

lemma Set_has_keyOf: "Set_has (keyOf c) (map keyOf cs) \<longleftrightarrow> c \<in> set cs"
  by (simp add: Set_has_def keyOf_in_image)

lemma Set_add_keyOf: "Set_add (keyOf c) (map keyOf cs) = map keyOf (addCell c cs)"
  by (simp add: Set_add_def addCell_def keyOf_in_image)

lemma cellKey_plus: "cellKey (Num a) (Num b) = keyOf (a, b)"
  by (simp add: keyOf_def)

lemma getNeighbors_keyOf:
  "getNeighbors (map keyOf cs) (Num (fst c)) (Num (snd c)) = countCells cs c"
proof -
  have "fold (\<lambda>(dx, dy) neighbors.
             if Set_has (cellKey (plus_number (Num (fst c)) dx) (plus_number (Num (snd c)) dy))
                  (map keyOf cs)
             then neighbors + 1 else neighbors) os n
      = fold (\<lambda>(dx, dy) n.
               if (addCoord (fst c) dx, addCoord (snd c) dy) \<in> set cs then n + 1 else n) os n"
    for os n
    by (induction os arbitrary: n) (auto simp: cellKey_plus Set_has_keyOf)
  then show ?thesis
    by (simp add: getNeighbors_def countCells_def)
qed

lemma addCandidates_keyOf:
  "addCandidates (keyOf c) (map keyOf cand) = map keyOf (addCandidateCells c cand)"
proof -
  have "fold (\<lambda>(dx, dy) a.
               Set_add (cellKey (plus_number (Num (fst c)) dx) (plus_number (Num (snd c)) dy)) a)
          os (map keyOf a)
      = map keyOf
          (fold (\<lambda>(dx, dy) a. addCell (addCoord (fst c) dx, addCoord (snd c) dy) a) os a)"
    for os a
    by (induction os arbitrary: a) (auto simp: cellKey_plus Set_add_keyOf)
  then show ?thesis
    by (simp add: addCandidates_def addCandidateCells_def destructure2_keyOf Set_add_keyOf)
qed

lemma fold_addCandidates_keyOf:
  "fold addCandidates (map keyOf cs) (map keyOf cand) = map keyOf (fold addCandidateCells cs cand)"
  by (induction cs arbitrary: cand) (simp_all add: addCandidates_keyOf)

lemma decide_keyOf:
  "decide (map keyOf cs) (keyOf c) (map keyOf new) = map keyOf (decideCell cs c new)"
  by (simp add: decide_def decideCell_def destructure2_keyOf getNeighbors_keyOf Set_has_keyOf
      Set_add_keyOf Let_def)

lemma fold_decide_keyOf:
  "fold (decide (map keyOf cs)) (map keyOf cand) (map keyOf new)
     = map keyOf (fold (decideCell cs) cand new)"
  by (induction cand arbitrary: new) (simp_all add: decide_keyOf)

lemma nextGen_map_keyOf: "nextGen (map keyOf cs) = map keyOf (nextGenCells cs)"
  using fold_addCandidates_keyOf [of cs "[]"] fold_decide_keyOf [of cs _ "[]"]
  by (simp add: nextGen_def nextGenCells_def Let_def)

section \<open>The engine on safe cells is the rule of Life\<close>

lemma set_addCell: "set (addCell c cs) = insert c (set cs)"
  by (auto simp: addCell_def)

lemma distinct_addCell: "distinct cs \<Longrightarrow> distinct (addCell c cs)"
  by (simp add: addCell_def)

lemma offsets_list:
  "offsets = [(-1, -1), (0, -1), (1, -1), (-1, 0), (1, 0), (-1, 1), (0, 1), (1, 1)]"
  by (simp add: offsets_def)

lemma set_offsets: "set offsets = ({-1, 0, 1} \<times> {-1, 0, 1}) - {(0, 0)}"
  unfolding offsets_list by auto

lemma distinct_offsets: "distinct offsets"
  unfolding offsets_list by simp

lemma offsets_small: "(dx, dy) \<in> set offsets \<Longrightarrow> \<bar>dx\<bar> \<le> 1 \<and> \<bar>dy\<bar> \<le> 1"
  by (auto simp: set_offsets)

lemma moore_offsets: "moore c = (\<lambda>(dx, dy). (fst c + dx, snd c + dy)) ` set offsets"
  by (simp only: moore_def set_offsets)

text \<open>The candidates of a safe cell are the cell and its Moore neighbourhood.\<close>

lemma set_fold_addCell:
  "set (fold (\<lambda>(dx, dy) a. addCell (addCoord (fst c) dx, addCoord (snd c) dy) a) os a)
     = set a \<union> (\<lambda>(dx, dy). (addCoord (fst c) dx, addCoord (snd c) dy)) ` set os"
  by (induction os arbitrary: a) (auto simp: set_addCell)

lemma distinct_fold_addCell:
  "distinct a \<Longrightarrow>
   distinct (fold (\<lambda>(dx, dy) a. addCell (addCoord (fst c) dx, addCoord (snd c) dy) a) os a)"
  by (induction os arbitrary: a) (simp_all add: distinct_addCell case_prod_unfold)

lemma safe_neighbour:
  assumes "safeCell c" and "(dx, dy) \<in> set offsets"
  shows "(addCoord (fst c) dx, addCoord (snd c) dy) = (fst c + dx, snd c + dy)"
proof -
  from assms(2) have "\<bar>dx\<bar> \<le> 1" "\<bar>dy\<bar> \<le> 1" by (auto dest: offsets_small)
  with assms(1) have "\<bar>fst c + dx\<bar> \<le> 2 ^ 53" "\<bar>snd c + dy\<bar> \<le> 2 ^ 53"
    by (auto simp: safeCell_def)
  then show ?thesis by (simp add: addCoord_exact)
qed

lemma set_addCandidateCells:
  assumes "safeCell c"
  shows "set (addCandidateCells c cand) = set cand \<union> insert c (moore c)"
proof -
  have "(\<lambda>(dx, dy). (addCoord (fst c) dx, addCoord (snd c) dy)) ` set offsets
          = (\<lambda>(dx, dy). (fst c + dx, snd c + dy)) ` set offsets"
  proof (rule image_cong)
    fix p assume p: "p \<in> set offsets"
    obtain dx dy where "p = (dx, dy)" by (cases p)
    with p show "(case p of (dx, dy) \<Rightarrow> (addCoord (fst c) dx, addCoord (snd c) dy))
                 = (case p of (dx, dy) \<Rightarrow> (fst c + dx, snd c + dy))"
      using safe_neighbour [OF assms, of dx dy] by simp
  qed simp
  then show ?thesis
    by (simp add: addCandidateCells_def set_fold_addCell set_addCell moore_offsets)
qed

lemma distinct_addCandidateCells: "distinct cand \<Longrightarrow> distinct (addCandidateCells c cand)"
  by (simp add: addCandidateCells_def distinct_fold_addCell distinct_addCell)

lemma set_fold_addCandidateCells:
  "\<forall>c\<in>set cs. safeCell c
   \<Longrightarrow> set (fold addCandidateCells cs cand) = set cand \<union> candidateCells (set cs)"
  by (induction cs arbitrary: cand) (auto simp: set_addCandidateCells candidateCells_def)

lemma distinct_fold_addCandidateCells:
  "distinct cand \<Longrightarrow> distinct (fold addCandidateCells cs cand)"
  by (induction cs arbitrary: cand) (simp_all add: distinct_addCandidateCells)

text \<open>A candidate of safe cells has coordinates up to \<open>2^53\<close>.\<close>

lemma candidate_bound:
  assumes "\<forall>c\<in>A. safeCell c" and "c \<in> candidateCells A"
  shows "\<bar>fst c\<bar> \<le> 2 ^ 53 \<and> \<bar>snd c\<bar> \<le> 2 ^ 53"
proof -
  from assms(2) consider "c \<in> A" | a where "a \<in> A" "c \<in> moore a"
    by (auto simp: candidateCells_def)
  then show ?thesis
  proof cases
    case 1
    with assms(1) show ?thesis by (auto simp: safeCell_def)
  next
    case 2
    from 2(2) obtain dx dy where d: "c = (fst a + dx, snd a + dy)" "(dx, dy) \<in> set offsets"
      by (auto simp: moore_offsets)
    from d(2) have "\<bar>dx\<bar> \<le> 1" "\<bar>dy\<bar> \<le> 1" by (auto dest: offsets_small)
    moreover from assms(1) 2(1) have "\<bar>fst a\<bar> < 2 ^ 53" "\<bar>snd a\<bar> < 2 ^ 53"
      by (auto simp: safeCell_def)
    ultimately have "\<bar>fst a + dx\<bar> \<le> 2 ^ 53" "\<bar>snd a + dy\<bar> \<le> 2 ^ 53"
      by linarith+
    then show ?thesis using d(1) by simp
  qed
qed

text \<open>Counted against safe cells, a rounded neighbour is live iff the exact one is.\<close>

lemma member_neighbour:
  assumes safe: "\<forall>a\<in>set cs. safeCell a"
    and c: "\<bar>fst c\<bar> \<le> 2 ^ 53" "\<bar>snd c\<bar> \<le> 2 ^ 53"
    and d: "(dx, dy) \<in> set offsets"
  shows "(addCoord (fst c) dx, addCoord (snd c) dy) \<in> set cs
           \<longleftrightarrow> (fst c + dx, snd c + dy) \<in> set cs"
proof -
  from d have s: "\<bar>dx\<bar> \<le> 1" "\<bar>dy\<bar> \<le> 1" by (auto dest: offsets_small)
  note nx = addCoord_near [OF c(1) s(1)] and ny = addCoord_near [OF c(2) s(2)]
  show ?thesis
  proof (cases "addCoord (fst c) dx = fst c + dx \<and> addCoord (snd c) dy = snd c + dy")
    case True
    then show ?thesis by simp
  next
    case False
    with nx ny have out:
      "(\<bar>fst c + dx\<bar> > 2 ^ 53 \<and> \<bar>addCoord (fst c) dx\<bar> = 2 ^ 53)
       \<or> (\<bar>snd c + dy\<bar> > 2 ^ 53 \<and> \<bar>addCoord (snd c) dy\<bar> = 2 ^ 53)"
      by blast
    have l: "(addCoord (fst c) dx, addCoord (snd c) dy) \<notin> set cs"
      using out safe by (auto simp: safeCell_def)
    have r: "(fst c + dx, snd c + dy) \<notin> set cs"
      using out safe by (auto simp: safeCell_def)
    from l r show ?thesis by simp
  qed
qed

lemma fold_count_filter:
  "fold (\<lambda>p n. if P p then n + 1 else n) os (n::nat) = n + length (filter P os)"
  by (induction os arbitrary: n) simp_all

lemma countCells_liveNeighbours:
  assumes safe: "\<forall>a\<in>set cs. safeCell a"
    and c: "\<bar>fst c\<bar> \<le> 2 ^ 53" "\<bar>snd c\<bar> \<le> 2 ^ 53"
  shows "countCells cs c = liveNeighbours (set cs) c"
proof -
  let ?g = "\<lambda>(dx, dy). (addCoord (fst c) dx, addCoord (snd c) dy) :: int \<times> int"
  let ?f = "\<lambda>(dx, dy). (fst c + dx, snd c + dy) :: int \<times> int"
  let ?P = "\<lambda>p. ?f p \<in> set cs"
  have "countCells cs c = length (filter (\<lambda>p. ?g p \<in> set cs) offsets)"
    using fold_count_filter [of "\<lambda>p. ?g p \<in> set cs" offsets 0]
    by (simp add: countCells_def case_prod_unfold)
  also have "filter (\<lambda>p. ?g p \<in> set cs) offsets = filter ?P offsets"
    by (rule filter_cong) (auto simp: member_neighbour [OF safe c])
  also have "length (filter ?P offsets) = card (set (filter ?P offsets))"
    using distinct_card [of "filter ?P offsets"] distinct_offsets
    by (simp del: set_filter)
  also have "\<dots> = card (?f ` set (filter ?P offsets))"
  proof -
    have "inj ?f" by (auto simp: inj_def)
    then have "inj_on ?f (set (filter ?P offsets))"
      by (rule inj_on_subset) simp
    then show ?thesis by (simp add: card_image)
  qed
  also have "?f ` set (filter ?P offsets) = moore c \<inter> set cs"
    by (auto simp: moore_offsets)
  finally show ?thesis
    by (simp add: liveNeighbours_def)
qed

lemma set_decideCell:
  assumes "\<forall>a\<in>set cs. safeCell a" and "\<bar>fst c\<bar> \<le> 2 ^ 53" and "\<bar>snd c\<bar> \<le> 2 ^ 53"
  shows "set (decideCell cs c new)
           = (if liveNext (set cs) c then insert c (set new) else set new)"
  by (simp add: decideCell_def liveNext_def countCells_liveNeighbours [OF assms] set_addCell)

lemma distinct_decideCell: "distinct new \<Longrightarrow> distinct (decideCell cs c new)"
  by (simp add: decideCell_def distinct_addCell)

lemma set_fold_decideCell:
  assumes "\<forall>a\<in>set cs. safeCell a"
  shows "\<forall>c\<in>set cand. \<bar>fst c\<bar> \<le> 2 ^ 53 \<and> \<bar>snd c\<bar> \<le> 2 ^ 53
         \<Longrightarrow> set (fold (decideCell cs) cand new)
             = set new \<union> Set.filter (liveNext (set cs)) (set cand)"
  by (induction cand arbitrary: new) (auto simp: set_decideCell [OF assms])

lemma distinct_fold_decideCell: "distinct new \<Longrightarrow> distinct (fold (decideCell cs) cand new)"
  by (induction cand arbitrary: new) (simp_all add: distinct_decideCell)

lemma set_nextGenCells:
  assumes "\<forall>a\<in>set cs. safeCell a"
  shows "set (nextGenCells cs) = lifeStep (set cs)"
proof -
  have cand: "set (fold addCandidateCells cs []) = candidateCells (set cs)"
    using set_fold_addCandidateCells [OF assms, of "[]"] by simp
  then have "\<forall>c\<in>set (fold addCandidateCells cs []). \<bar>fst c\<bar> \<le> 2 ^ 53 \<and> \<bar>snd c\<bar> \<le> 2 ^ 53"
    using candidate_bound [of "set cs"] assms by blast
  then show ?thesis
    using set_fold_decideCell [OF assms, of "fold addCandidateCells cs []" "[]"] cand
    by (simp add: nextGenCells_def lifeStep_def)
qed

lemma distinct_nextGenCells: "distinct (nextGenCells cs)"
  by (simp add: nextGenCells_def distinct_fold_decideCell)

text \<open>The result of \<open>nextGen\<close> on well-formed keys, safe or not.\<close>

lemma nextGen_wf:
  assumes "\<forall>k\<in>set ks. wfKey k"
  shows "nextGen ks = map keyOf (nextGenCells (map keyCell ks))"
    and "\<forall>k\<in>set (nextGen ks). wfKey k"
    and "distinct (nextGen ks)"
proof -
  let ?cs = "map keyCell ks"
  from assms have ks: "ks = map keyOf ?cs" by (rule wf_keys_map)
  show n: "nextGen ks = map keyOf (nextGenCells ?cs)"
    using nextGen_map_keyOf [of ?cs] ks by simp
  show "\<forall>k\<in>set (nextGen ks). wfKey k"
    by (auto simp: n wfKey_keyOf)
  show "distinct (nextGen ks)"
    using inj_keyOf
    by (simp add: n distinct_map distinct_nextGenCells inj_on_subset [OF _ subset_UNIV])
qed

lemma nextGen_refines:
  assumes "\<forall>k\<in>set ks. wfKey k" and "\<forall>k\<in>set ks. safeCell (keyCell k)"
  shows "cellsOf (nextGen ks) = lifeStep (cellsOf ks)"
proof -
  let ?cs = "map keyCell ks"
  have "cellsOf ks = set ?cs"
    by (simp add: cellsOf_def)
  moreover have "\<forall>a\<in>set ?cs. safeCell a"
    using assms(2) by simp
  ultimately show ?thesis
    by (simp add: nextGen_wf(1) [OF assms(1)] cellsOf_map_keyOf set_nextGenCells del: set_map)
qed

section \<open>One generation\<close>

text \<open>A cell that the rule makes live is a candidate: the candidates lose nothing.\<close>

lemma liveNext_candidate:
  assumes "liveNext A c"
  shows "c \<in> candidateCells A"
proof (cases "c \<in> A")
  case True
  then show ?thesis by (simp add: candidateCells_def)
next
  case False
  with assms have "card (moore c \<inter> A) = 3"
    by (simp add: liveNext_def liveNeighbours_def)
  then have "moore c \<inter> A \<noteq> {}" by auto
  then obtain a where a: "a \<in> A" "a \<in> moore c" by blast
  from a(2) obtain dx dy where d: "a = (fst c + dx, snd c + dy)" "(dx, dy) \<in> set offsets"
    by (auto simp: moore_offsets)
  from d(2) have "(- dx, - dy) \<in> set offsets"
    by (auto simp: set_offsets)
  moreover have "c = (fst a + (- dx), snd a + (- dy))"
    using d(1) by simp
  ultimately have "c \<in> moore a"
    unfolding moore_offsets by (metis (no_types, lifting) case_prod_conv image_eqI)
  with a(1) show ?thesis by (auto simp: candidateCells_def)
qed

lemma lifeStep_iff: "c \<in> lifeStep A \<longleftrightarrow> liveNext A c"
  using liveNext_candidate [of A c] by (auto simp: lifeStep_def)

lemma initGlider_keyOf:
  "initGlider x y [] =
     map keyOf [(x + 1, y), (x + 2, y + 1), (x, y + 2), (x + 1, y + 2), (x + 2, y + 2)]"
  by (simp add: initGlider_def Set_add_def cellKey_plus keyOf_inject)

lemma funpow_nextGen_keyOf: "(nextGen ^^ n) (map keyOf cs) = map keyOf ((nextGenCells ^^ n) cs)"
  by (induction n) (simp_all add: nextGen_map_keyOf)

lemma glider_cells_4:
  "(nextGenCells ^^ 4) [(1, 0), (2, 1), (0, 2), (1, 2), (2, 2)]
     = [(2, 1), (1, 3), (2, 3), (3, 2), (3, 3)]"
  by code_simp

lemma glider_cells_1:
  "nextGenCells [(1, 0), (2, 1), (0, 2), (1, 2), (2, 2)]
     = [(0, 1), (2, 1), (1, 2), (2, 2), (1, 3)]"
  by code_simp

text \<open>Two cells in the column \<open>x = 2^53\<close>: there \<open>x + 1\<close> is \<open>x\<close> again.\<close>

lemma top_cells_next:
  "nextGenCells [(9007199254740992, 0), (9007199254740992, 1)]
     = [(9007199254740992, 0), (9007199254740992, 1)]"
  by (simp add: nextGenCells_def addCandidateCells_def decideCell_def countCells_def
      addCell_def offsets_list addCoord_exact addCoord_top)

lemma top_cells_lifeStep: "lifeStep {(9007199254740992, 0), (9007199254740992, 1)} = {}"
  by code_simp

text \<open>
  Claim C3. Applying \<open>nextGen\<close> to the empty live-cell set gives the empty live-cell
  set: the empty grid is a fixed point of the generation advance.
\<close>

theorem nextGen_empty: "nextGen [] = []"
  by (simp add: nextGen_def)

text \<open>
  Claim C10. For all integer coordinates \<open>x\<close> and \<open>y\<close>, \<open>parseKey (cellKey x y)\<close> is
  the array \<open>[x, y]\<close>, which the destructuring of the script reads back as \<open>x\<close> and
  \<open>y\<close>; and two keys are equal exactly when both coordinates are equal, so the set of
  key strings stands for a set of coordinate pairs.
\<close>

theorem cellKey_parseKey_roundtrip:
  "parseKey (cellKey (Num x) (Num y)) = [Num x, Num y]
   \<and> destructure2 (parseKey (cellKey (Num x) (Num y))) = (Num x, Num y)
   \<and> (cellKey (Num x1) (Num y1) = cellKey (Num x2) (Num y2) \<longleftrightarrow> x1 = x2 \<and> y1 = y2)"
  by (simp add: parseKey_cellKey cellKey_inject)

text \<open>The cell \<open>(3, -4)\<close>: its key, the key read back, and the key of \<open>(-4, 3)\<close>.\<close>

theorem cellKey_parseKey_roundtrip_witness:
  "parseKey (cellKey (Num 3) (Num (- 4))) = [Num 3, Num (- 4)]
   \<and> cellKey (Num 3) (Num (- 4)) = ''3,-4''
   \<and> cellKey (Num 3) (Num (- 4)) \<noteq> cellKey (Num (- 4)) (Num 3)"
proof -
  have "cellKey (Num 3) (Num (- 4)) = ''3,-4''" by code_simp
  then show ?thesis
    using cellKey_parseKey_roundtrip [of 3 "- 4" 3 "- 4" "- 4" 3] by simp
qed

text \<open>
  Claim C1, as the code has it. For every finite live-cell set (a list of well-formed
  keys) whose coordinates are safe integers, at most \<open>2^53 - 1\<close> in absolute value, one
  call of \<open>nextGen\<close> replaces the live set by exactly the candidate cells (the live cells
  and their Moore neighbourhoods) that the rule of Life makes live, every candidate being
  judged against the set before the advance: a live cell stays iff it has exactly two or
  three live neighbours, a dead candidate is added iff it has exactly three. The new set
  again has well-formed keys, none of them twice.
\<close>

theorem nextGen_lifeStep:
  assumes "\<forall>k\<in>set ks. wfKey k" and "\<forall>k\<in>set ks. safeCell (keyCell k)"
  shows "cellsOf (nextGen ks) = lifeStep (cellsOf ks)
         \<and> (\<forall>c. c \<in> cellsOf (nextGen ks) \<longleftrightarrow> liveNext (cellsOf ks) c)
         \<and> (\<forall>k\<in>set (nextGen ks). wfKey k)
         \<and> distinct (nextGen ks)"
  using nextGen_refines [OF assms] nextGen_wf(2,3) [OF assms(1)] by (simp add: lifeStep_iff)

text \<open>The glider at the origin after one generation.\<close>

theorem nextGen_lifeStep_witness:
  "list_all wfKey (initGlider 0 0 [])
   \<and> list_all (\<lambda>k. safeCell (keyCell k)) (initGlider 0 0 [])
   \<and> cellsOf (nextGen (initGlider 0 0 [])) = {(0, 1), (2, 1), (1, 2), (2, 2), (1, 3)}
   \<and> lifeStep (cellsOf (initGlider 0 0 [])) = {(0, 1), (2, 1), (1, 2), (2, 2), (1, 3)}"
proof -
  have wf: "\<forall>k\<in>set (initGlider 0 0 []). wfKey k"
    by (simp add: initGlider_keyOf wfKey_keyOf)
  have safe: "\<forall>k\<in>set (initGlider 0 0 []). safeCell (keyCell k)"
    by (simp add: initGlider_keyOf keyCell_keyOf safeCell_def)
  have "cellsOf (nextGen (initGlider 0 0 [])) = {(0, 1), (2, 1), (1, 2), (2, 2), (1, 3)}"
    using glider_cells_1
    by (simp add: initGlider_keyOf nextGen_map_keyOf cellsOf_map_keyOf del: list.map)
  with wf safe nextGen_lifeStep [OF wf safe] show ?thesis by (simp add: list_all_iff)
qed

text \<open>
  Without the bound the claim fails. The two live cells \<open>(2^53, 0)\<close> and \<open>(2^53, 1)\<close>
  have one live neighbour each, so the rule of Life leaves nothing; but in binary64
  \<open>2^53 + 1\<close> is \<open>2^53\<close>, each cell counts itself once and the other cell twice, and
  \<open>nextGen\<close> keeps both.
\<close>

theorem nextGen_lifeStep_counterexample:
  "list_all wfKey [cellKey (Num 9007199254740992) (Num 0), cellKey (Num 9007199254740992) (Num 1)]
   \<and> cellsOf (nextGen [cellKey (Num 9007199254740992) (Num 0),
                       cellKey (Num 9007199254740992) (Num 1)])
       = {(9007199254740992, 0), (9007199254740992, 1)}
   \<and> lifeStep (cellsOf [cellKey (Num 9007199254740992) (Num 0),
                        cellKey (Num 9007199254740992) (Num 1)]) = {}"
proof -
  have k: "[cellKey (Num 9007199254740992) (Num 0), cellKey (Num 9007199254740992) (Num 1)]
             = map keyOf [(9007199254740992, 0), (9007199254740992, 1)]"
    by (simp add: keyOf_def)
  show ?thesis
    unfolding k
    using top_cells_next top_cells_lifeStep
    by (simp add: nextGen_map_keyOf cellsOf_map_keyOf wfKey_keyOf list_all_iff del: list.map)
qed

text \<open>
  Claim C2. From the live set that \<open>initGlider 0 0\<close> seeds on the empty grid, the cells
  \<open>(1,0), (2,1), (0,2), (1,2), (2,2)\<close>, four calls of \<open>nextGen\<close> give exactly the five
  cells \<open>(2,1), (3,2), (1,3), (2,3), (3,3)\<close>: the same pattern moved by \<open>(+1, +1)\<close>,
  which is what \<open>initGlider 1 1\<close> seeds.
\<close>

theorem glider_translation:
  "set ((nextGen ^^ 4) (initGlider 0 0 []))
     = {cellKey (Num 2) (Num 1), cellKey (Num 3) (Num 2), cellKey (Num 1) (Num 3),
        cellKey (Num 2) (Num 3), cellKey (Num 3) (Num 3)}
   \<and> cellsOf ((nextGen ^^ 4) (initGlider 0 0 [])) = {(2, 1), (3, 2), (1, 3), (2, 3), (3, 3)}
   \<and> set ((nextGen ^^ 4) (initGlider 0 0 [])) = set (initGlider 1 1 [])
   \<and> distinct ((nextGen ^^ 4) (initGlider 0 0 []))"
proof -
  have g: "(nextGen ^^ 4) (initGlider 0 0 []) = map keyOf [(2, 1), (1, 3), (2, 3), (3, 2), (3, 3)]"
    using funpow_nextGen_keyOf [of 4 "[(1, 0), (2, 1), (0, 2), (1, 2), (2, 2)]"] glider_cells_4
    by (simp add: initGlider_keyOf del: funpow.simps)
  have c: "cellsOf ((nextGen ^^ 4) (initGlider 0 0 [])) = {(2, 1), (3, 2), (1, 3), (2, 3), (3, 3)}"
    unfolding g cellsOf_map_keyOf by auto
  have d: "distinct ((nextGen ^^ 4) (initGlider 0 0 []))"
    unfolding g by (simp add: keyOf_inject)
  have s1: "set ((nextGen ^^ 4) (initGlider 0 0 []))
     = {cellKey (Num 2) (Num 1), cellKey (Num 3) (Num 2), cellKey (Num 1) (Num 3),
        cellKey (Num 2) (Num 3), cellKey (Num 3) (Num 3)}"
    unfolding g by (auto simp: keyOf_def)
  have s2: "set ((nextGen ^^ 4) (initGlider 0 0 [])) = set (initGlider 1 1 [])"
  proof -
    have "initGlider 1 1 [] = map keyOf [(2, 1), (3, 2), (1, 3), (2, 3), (3, 3)]"
      by (simp add: initGlider_keyOf)
    then show ?thesis
      unfolding g by auto
  qed
  from s1 c s2 d show ?thesis by blast
qed

section \<open>Camera\<close>

lemma zoom_onWheel:
  "zoom (onWheel clientX clientY rectLeft rectTop deltaY s)
     = min 50 (max 1 (fmul (zoom s) (if deltaY < 0 then rnd (11 / 10) else rnd (9 / 10))))"
  by (simp add: onWheel_def Let_def)

lemma zoom_onWheel_range:
  "1 \<le> zoom (onWheel clientX clientY rectLeft rectTop deltaY s)
   \<and> zoom (onWheel clientX clientY rectLeft rectTop deltaY s) \<le> 50"
  unfolding zoom_onWheel by simp

lemma zoom_handle_other: "\<not> isWheel e \<Longrightarrow> zoom (handle e s) = zoom s"
proof (cases e)
  case (MouseMove x y)
  then show ?thesis
    by (simp add: onMouseMove_def Let_def split: option.splits)
next
  case (Frame t)
  then show ?thesis
    by (simp add: loop_def Let_def)
qed (simp_all add: onResize_def resizeCanvas_def onMouseDown_def onMouseUp_def
      onMouseLeave_def onClick_def onPauseClick_def onSpeedUpClick_def onSpeedDownClick_def
      Let_def)

lemma zoom_init: "zoom (init w h) = 10"
  by (simp add: init_def resizeCanvas_def)

lemma zoom_reachable: "reachable s \<Longrightarrow> 1 \<le> zoom s \<and> zoom s \<le> 50"
proof (induction rule: reachable.induct)
  case (start w h)
  show ?case by (simp add: zoom_init)
next
  case (step s e)
  show ?case
  proof (cases "isWheel e")
    case True
    then obtain x y l t d where "e = Wheel x y l t d" by (cases e) auto
    then show ?thesis using zoom_onWheel_range by simp
  next
    case False
    then show ?thesis using step.IH zoom_handle_other by simp
  qed
qed

text \<open>While a drag is in progress both anchors have a value.\<close>

lemma drag_anchor_set:
  "reachable s \<Longrightarrow> isDragging s \<Longrightarrow> dragStartX s \<noteq> None \<and> dragStartY s \<noteq> None"
proof (induction rule: reachable.induct)
  case (start w h)
  then show ?case by (simp add: init_def resizeCanvas_def)
next
  case (step s e)
  then show ?case
    by (cases e)
       (auto simp: onResize_def resizeCanvas_def onMouseDown_def onMouseUp_def
          onMouseLeave_def onMouseMove_def onClick_def onWheel_def onPauseClick_def
          onSpeedUpClick_def onSpeedDownClick_def loop_def Let_def
          split: if_splits option.splits)
qed

subsection \<open>Values of the rounding\<close>

lemma rnd_numeral: "numeral n < (2::int) ^ 53 \<Longrightarrow> rnd (numeral n) = numeral n"
  using rnd_of_int [of "numeral n"] by simp

lemma rnd_neg_numeral: "numeral n < (2::int) ^ 53 \<Longrightarrow> rnd (- numeral n) = - numeral n"
  using rnd_of_int [of "- numeral n"] by simp

lemma rnd_0: "rnd 0 = 0"
  by (simp add: rnd_def)

lemma rnd_1: "rnd 1 = 1"
  using rnd_of_int [of 1] by simp

lemma rnd_11_10: "rnd (11 / 10) = 2476979795053773 / 2251799813685248"
  using rnd_eval [of 0 "11 / 10"] by (simp add: power_int_minus_divide roundEven_def)

lemma rnd_9_10: "rnd (9 / 10) = 8106479329266893 / 9007199254740992"
  using rnd_eval [of "- 1" "9 / 10"] by (simp add: power_int_minus_divide roundEven_def)

lemma rnd_zoom_in: "rnd (10 * (2476979795053773 / 2251799813685248)) = 11"
  using rnd_eval [of 3 "10 * (2476979795053773 / 2251799813685248)"]
  by (simp add: power_int_minus_divide roundEven_def)

lemma rnd_zoom_out: "rnd (10 * (8106479329266893 / 9007199254740992)) = 9"
  using rnd_eval [of 3 "10 * (8106479329266893 / 9007199254740992)"]
  by (simp add: power_int_minus_divide roundEven_def)

lemma rnd_100_9: "rnd (100 / 9) = 3127499741229511 / 281474976710656"
  using rnd_eval [of 3 "100 / 9"] by (simp add: power_int_minus_divide roundEven_def)

lemma rnd_camX: "rnd (- 30 - 3127499741229511 / 281474976710656)
                   = - (1446468630318649 / 35184372088832)"
  using rnd_eval [of 5 "- 30 - 3127499741229511 / 281474976710656"]
  by (simp add: power_int_minus_divide roundEven_def)

lemma rnd_camY: "rnd (- 20 - 3127499741229511 / 281474976710656)
                   = - (8756999275442631 / 281474976710656)"
  using rnd_eval [of 4 "- 20 - 3127499741229511 / 281474976710656"]
  by (simp add: power_int_minus_divide roundEven_def)

lemma rnd_anchorX:
  "rnd (- (1446468630318649 / 35184372088832) + 3127499741229511 / 281474976710656)
     = - (8444249301319681 / 281474976710656)"
  using rnd_eval [of 4 "- (1446468630318649 / 35184372088832) + 3127499741229511 / 281474976710656"]
  by (simp add: power_int_minus_divide roundEven_def)

lemma init_fields:
  "aliveCells (init w h) = initGlider 0 0 []" "paused (init w h) = False"
  "delay (init w h) = 0" "lastFrame (init w h) = 0" "isDragging (init w h) = False"
  "cameraX (init w h) = - 40" "cameraY (init w h) = - 30"
  by (simp_all add: init_def resizeCanvas_def)

lemma rnd_zoom_in': "rnd (12384898975268865 / 1125899906842624) = 11"
  using rnd_zoom_in by simp

lemma rnd_zoom_out': "rnd (40532396646334465 / 4503599627370496) = 9"
  using rnd_zoom_out by simp

lemma rnd_camX': "rnd (- (11571749042549191 / 281474976710656))
                    = - (1446468630318649 / 35184372088832)"
  using rnd_camX by simp

lemma rnd_camY': "rnd (- (8756999275442631 / 281474976710656))
                    = - (8756999275442631 / 281474976710656)"
  using rnd_camY by simp

text \<open>One wheel step out at the pointer \<open>(100, 100)\<close> of the start page.\<close>

lemma wheelOut_fields:
  "zoom (onWheel 100 100 0 0 1 (init w h)) = 9"
  "cameraX (onWheel 100 100 0 0 1 (init w h)) = - (1446468630318649 / 35184372088832)"
  "cameraY (onWheel 100 100 0 0 1 (init w h)) = - (8756999275442631 / 281474976710656)"
  "aliveCells (onWheel 100 100 0 0 1 (init w h)) = initGlider 0 0 []"
  "paused (onWheel 100 100 0 0 1 (init w h)) = False"
  "isDragging (onWheel 100 100 0 0 1 (init w h)) = False"
  by (simp_all add: onWheel_def Let_def init_fields zoom_init fsub_def fadd_def fdiv_def fmul_def
      rnd_numeral rnd_neg_numeral rnd_9_10 rnd_zoom_out' rnd_100_9 rnd_camX' rnd_camY')

text \<open>
  Claim C7. The zoom always stays within \<open>[1, 50]\<close>, so it is positive: it starts at
  10, the wheel handler clamps its new value to \<open>[1, 50]\<close> from any state, and every
  other handler (drag, click, pause, speed change, resize, the frame loop with its
  generation advance) leaves the zoom as it was; hence every state of a run has its zoom
  in range.
\<close>

theorem zoom_bounded:
  "(reachable s \<longrightarrow> 1 \<le> zoom s \<and> zoom s \<le> 50)
   \<and> zoom (init w h) = 10
   \<and> 1 \<le> zoom (handle (Wheel clientX clientY rectLeft rectTop deltaY) s1)
   \<and> zoom (handle (Wheel clientX clientY rectLeft rectTop deltaY) s1) \<le> 50
   \<and> (\<not> isWheel e \<longrightarrow> zoom (handle e s2) = zoom s2)"
  using zoom_reachable [of s] zoom_init [of w h]
    zoom_onWheel_range [of clientX clientY rectLeft rectTop deltaY s1]
    zoom_handle_other [of e s2]
  by simp

text \<open>One wheel step in from the start gives zoom 11; a mouse move leaves it at 10.\<close>

theorem zoom_bounded_witness:
  "reachable (handle (Wheel 5 5 0 0 (- 1)) (init 800 600))
   \<and> zoom (handle (Wheel 5 5 0 0 (- 1)) (init 800 600)) = 11
   \<and> 1 \<le> zoom (handle (Wheel 5 5 0 0 (- 1)) (init 800 600))
   \<and> zoom (handle (Wheel 5 5 0 0 (- 1)) (init 800 600)) \<le> 50
   \<and> \<not> isWheel (MouseMove 7 9)
   \<and> zoom (handle (MouseMove 7 9) (init 800 600)) = 10"
proof -
  have r: "reachable (handle (Wheel 5 5 0 0 (- 1)) (init 800 600))"
    by (intro reachable.intros)
  have z: "zoom (handle (Wheel 5 5 0 0 (- 1)) (init 800 600)) = 11"
    by (simp add: zoom_onWheel zoom_init fmul_def rnd_11_10 rnd_zoom_in')
  show ?thesis
    using r z zoom_bounded [of "handle (Wheel 5 5 0 0 (- 1)) (init 800 600)" 800 600
        5 5 0 0 "- 1" "init 800 600" "MouseMove 7 9" "init 800 600"]
    by (simp add: zoom_init)
qed

text \<open>
  The error of the zoom-to-cursor step: the new offset \<open>c\<close> is computed from the world
  coordinate \<open>W\<close> and the quotient \<open>q = mouseX / zoom'\<close> with two roundings, and the
  world coordinate \<open>A\<close> under the pointer afterwards with two more.
\<close>

lemma rnd_error_scaled: "9007199254740992 * \<bar>rnd x - x\<bar> \<le> \<bar>x\<bar> + 1"
  using rnd_error [of x] by (simp add: field_simps)

lemma two_roundings:
  fixes x1 x2 aq aW y m :: real
  assumes "9007199254740992 * x1 \<le> aq + 1" and "9007199254740992 * x2 \<le> y + 1"
    and "y \<le> aW + aq + x1" and "m \<le> x2 + x1" and "0 \<le> x1" and "0 \<le> aq" and "0 \<le> aW"
  shows "2251799813685248 * m \<le> aW + aq + 1"
  using assms by linarith

lemma three_roundings:
  fixes x1 x2 x3 aq aW y z n :: real
  assumes "9007199254740992 * x1 \<le> aq + 1" and "9007199254740992 * x2 \<le> y + 1"
    and "9007199254740992 * x3 \<le> z + 1"
    and "y \<le> aW + aq + x1" and "z \<le> aW + x2" and "n \<le> x3 + x2"
    and "0 \<le> x1" and "0 \<le> aq" and "0 \<le> aW"
  shows "1125899906842624 * n \<le> aW + aq + 1"
  using assms by linarith

lemma anchor_error:
  fixes W q :: real
  defines "b \<equiv> rnd q"
  defines "c \<equiv> rnd (W - b)"
  defines "A \<equiv> rnd (c + b)"
  shows "\<bar>c - (W - q)\<bar> \<le> (\<bar>W\<bar> + \<bar>q\<bar> + 1) / 2 ^ 51"
    and "\<bar>A - W\<bar> \<le> (\<bar>W\<bar> + \<bar>q\<bar> + 1) / 2 ^ 50"
proof -
  have e1: "9007199254740992 * \<bar>b - q\<bar> \<le> \<bar>q\<bar> + 1"
    unfolding b_def by (rule rnd_error_scaled)
  have e2: "9007199254740992 * \<bar>c - (W - b)\<bar> \<le> \<bar>W - b\<bar> + 1"
    unfolding c_def by (rule rnd_error_scaled)
  have e3: "9007199254740992 * \<bar>A - (c + b)\<bar> \<le> \<bar>c + b\<bar> + 1"
    unfolding A_def by (rule rnd_error_scaled)
  have t1: "\<bar>W - b\<bar> \<le> \<bar>W\<bar> + \<bar>q\<bar> + \<bar>b - q\<bar>" by linarith
  have t2: "\<bar>c - (W - q)\<bar> \<le> \<bar>c - (W - b)\<bar> + \<bar>b - q\<bar>" by linarith
  have t3: "\<bar>c + b\<bar> \<le> \<bar>W\<bar> + \<bar>c - (W - b)\<bar>" by linarith
  have t4: "\<bar>A - W\<bar> \<le> \<bar>A - (c + b)\<bar> + \<bar>c - (W - b)\<bar>" by linarith
  have "2251799813685248 * \<bar>c - (W - q)\<bar> \<le> \<bar>W\<bar> + \<bar>q\<bar> + 1"
    by (rule two_roundings [OF e1 e2 t1 t2]) simp_all
  then show "\<bar>c - (W - q)\<bar> \<le> (\<bar>W\<bar> + \<bar>q\<bar> + 1) / 2 ^ 51"
    by (simp add: field_simps)
  have "1125899906842624 * \<bar>A - W\<bar> \<le> \<bar>W\<bar> + \<bar>q\<bar> + 1"
    by (rule three_roundings [OF e1 e2 e3 t1 t3 t4]) simp_all
  then show "\<bar>A - W\<bar> \<le> (\<bar>W\<bar> + \<bar>q\<bar> + 1) / 2 ^ 50"
    by (simp add: field_simps)
qed

text \<open>
  Claim C4, as the code has it. For every camera state with zoom in \<open>[1, 50]\<close> and
  every pointer position (offsets and pointer of magnitude at most \<open>2^1000\<close>, so that
  no operation overflows), one wheel step satisfies the zoom-to-cursor equation with the
  zoom after clamping up to the rounding of binary64, not exactly: with \<open>wxBeforeZoom\<close>
  the stored value of \<open>cameraX + mouseX / zoom\<close>,
  \<open>\<bar>cameraX' - (wxBeforeZoom - mouseX / zoom')\<bar> \<le> (\<bar>wxBeforeZoom\<bar> + \<bar>mouseX / zoom'\<bar> + 1) / 2^51\<close>,
  and the world coordinate under the pointer after the step is within
  \<open>(\<bar>wxBeforeZoom\<bar> + \<bar>mouseX / zoom'\<bar> + 1) / 2^50\<close> of \<open>wxBeforeZoom\<close>; the same
  for \<open>y\<close>.
\<close>

theorem onWheel_anchor:
  assumes "1 \<le> zoom s" and "zoom s \<le> 50"
    and "\<bar>cameraX s\<bar> \<le> 2 ^ 1000" and "\<bar>cameraY s\<bar> \<le> 2 ^ 1000"
    and "\<bar>clientX - rectLeft\<bar> \<le> 2 ^ 1000" and "\<bar>clientY - rectTop\<bar> \<le> 2 ^ 1000"
  shows
    "(let s' = onWheel clientX clientY rectLeft rectTop deltaY s;
          mouseX = fsub clientX rectLeft;
          mouseY = fsub clientY rectTop;
          wxBeforeZoom = fadd (cameraX s) (fdiv mouseX (zoom s));
          wyBeforeZoom = fadd (cameraY s) (fdiv mouseY (zoom s))
      in \<bar>cameraX s' - (wxBeforeZoom - mouseX / zoom s')\<bar>
           \<le> (\<bar>wxBeforeZoom\<bar> + \<bar>mouseX / zoom s'\<bar> + 1) / 2 ^ 51
         \<and> \<bar>cameraY s' - (wyBeforeZoom - mouseY / zoom s')\<bar>
           \<le> (\<bar>wyBeforeZoom\<bar> + \<bar>mouseY / zoom s'\<bar> + 1) / 2 ^ 51
         \<and> \<bar>fadd (cameraX s') (fdiv mouseX (zoom s')) - wxBeforeZoom\<bar>
           \<le> (\<bar>wxBeforeZoom\<bar> + \<bar>mouseX / zoom s'\<bar> + 1) / 2 ^ 50
         \<and> \<bar>fadd (cameraY s') (fdiv mouseY (zoom s')) - wyBeforeZoom\<bar>
           \<le> (\<bar>wyBeforeZoom\<bar> + \<bar>mouseY / zoom s'\<bar> + 1) / 2 ^ 50
         \<and> 1 \<le> zoom s' \<and> zoom s' \<le> 50)"
proof -
  define s' where "s' = onWheel clientX clientY rectLeft rectTop deltaY s"
  define mouseX where "mouseX = fsub clientX rectLeft"
  define mouseY where "mouseY = fsub clientY rectTop"
  define wx where "wx = fadd (cameraX s) (fdiv mouseX (zoom s))"
  define wy where "wy = fadd (cameraY s) (fdiv mouseY (zoom s))"
  have cx: "cameraX s' = rnd (wx - rnd (mouseX / zoom s'))"
    by (simp add: s'_def onWheel_def Let_def wx_def mouseX_def fsub_def fdiv_def)
  have cy: "cameraY s' = rnd (wy - rnd (mouseY / zoom s'))"
    by (simp add: s'_def onWheel_def Let_def wy_def mouseY_def fsub_def fdiv_def)
  have z: "1 \<le> zoom s'" "zoom s' \<le> 50"
    using zoom_onWheel_range [of clientX clientY rectLeft rectTop deltaY s]
    by (simp_all add: s'_def)
  note x = anchor_error [of wx "mouseX / zoom s'"] and y = anchor_error [of wy "mouseY / zoom s'"]
  show ?thesis
    unfolding Let_def s'_def [symmetric] mouseX_def [symmetric] mouseY_def [symmetric]
      wx_def [symmetric] wy_def [symmetric]
    using x y z by (simp add: cx cy fadd_def fdiv_def)
qed

text \<open>
  One wheel step out at the pointer \<open>(100, 100)\<close> of the start page: the new offset is
  the binary64 value \<open>-41.111111111111114\<close>, within the bound of \<open>-30 - 100/9\<close>.
\<close>

theorem onWheel_anchor_witness:
  "1 \<le> zoom (init 800 600) \<and> zoom (init 800 600) \<le> 50
   \<and> \<bar>cameraX (init 800 600)\<bar> \<le> 2 ^ 1000 \<and> \<bar>cameraY (init 800 600)\<bar> \<le> 2 ^ 1000
   \<and> \<bar>100 - 0 :: real\<bar> \<le> 2 ^ 1000
   \<and> cameraX (onWheel 100 100 0 0 1 (init 800 600)) = - (1446468630318649 / 35184372088832)
   \<and> \<bar>cameraX (onWheel 100 100 0 0 1 (init 800 600)) - (- 30 - 100 / 9)\<bar>
       \<le> (30 + 100 / 9 + 1) / 2 ^ 51"
proof -
  have h: "1 \<le> zoom (init 800 600)" "zoom (init 800 600) \<le> 50"
    "\<bar>cameraX (init 800 600)\<bar> \<le> 2 ^ 1000" "\<bar>cameraY (init 800 600)\<bar> \<le> 2 ^ 1000"
    "\<bar>100 - 0 :: real\<bar> \<le> 2 ^ 1000"
    by (simp_all add: zoom_init init_fields)
  have w: "fadd (cameraX (init 800 600)) (fdiv (fsub 100 0) (zoom (init 800 600))) = - 30"
    by (simp add: init_fields zoom_init fadd_def fdiv_def fsub_def rnd_numeral rnd_neg_numeral)
  have m: "fsub 100 0 = 100"
    by (simp add: fsub_def rnd_numeral)
  show ?thesis
    using h onWheel_anchor [OF h(1,2,3,4) h(5) h(5), where deltaY = 1]
    by (simp add: Let_def w m wheelOut_fields)
qed

lemma rnd_anchorX': "rnd (- (8444249301319681 / 281474976710656))
                       = - (8444249301319681 / 281474976710656)"
  using rnd_anchorX by simp

text \<open>
  The equation does not hold exactly. After the same wheel step the stored offset
  differs from \<open>wxBeforeZoom - mouseX / zoom' = -30 - 100/9\<close>, which is no binary64
  value, and the world coordinate under the pointer has moved from \<open>-30\<close> to
  \<open>-30.000000000000004\<close>, into the cell \<open>-31\<close>.
\<close>

theorem onWheel_anchor_counterexample:
  "1 \<le> zoom (init 800 600) \<and> zoom (init 800 600) \<le> 50
   \<and> zoom (onWheel 100 100 0 0 1 (init 800 600)) = 9
   \<and> cameraX (onWheel 100 100 0 0 1 (init 800 600))
       \<noteq> (cameraX (init 800 600) + (100 - 0) / zoom (init 800 600))
           - (100 - 0) / zoom (onWheel 100 100 0 0 1 (init 800 600))
   \<and> fadd (cameraX (init 800 600)) (fdiv 100 (zoom (init 800 600))) = - 30
   \<and> fadd (cameraX (onWheel 100 100 0 0 1 (init 800 600)))
          (fdiv 100 (zoom (onWheel 100 100 0 0 1 (init 800 600))))
       = - (8444249301319681 / 281474976710656)
   \<and> \<lfloor>fadd (cameraX (onWheel 100 100 0 0 1 (init 800 600)))
          (fdiv 100 (zoom (onWheel 100 100 0 0 1 (init 800 600))))\<rfloor> = - 31"
  by (simp add: wheelOut_fields init_fields zoom_init fadd_def fdiv_def rnd_numeral
      rnd_neg_numeral rnd_100_9 rnd_anchorX')

section \<open>Paint tool switched off\<close>

text \<open>
  Claim C9. A click that arrives while the simulation runs (\<open>paused\<close> is false) or
  while a drag is in progress (\<open>isDragging\<close> is true) does nothing: the state, with
  its live cells, camera, zoom and clock, is the one before.
\<close>

theorem onClick_disabled:
  "isDragging s \<or> \<not> paused s \<Longrightarrow> onClick clientX clientY rectLeft rectTop random s = s"
  by (simp add: onClick_def)

text \<open>A click on the running page, and a click on the paused page during a drag.\<close>

theorem onClick_disabled_witness:
  "\<not> paused (init 800 600)
   \<and> onClick 100 100 0 0 (\<lambda>n. 3 / 4) (init 800 600) = init 800 600
   \<and> isDragging (onMouseDown 0 100 100 (onPauseClick (init 800 600)))
   \<and> onClick 100 100 0 0 (\<lambda>n. 3 / 4) (onMouseDown 0 100 100 (onPauseClick (init 800 600)))
       = onMouseDown 0 100 100 (onPauseClick (init 800 600))"
proof -
  have a: "\<not> paused (init 800 600)"
    by (simp add: init_def resizeCanvas_def)
  have b: "isDragging (onMouseDown 0 100 100 (onPauseClick (init 800 600)))"
    by (simp add: onMouseDown_def)
  show ?thesis
    using a b onClick_disabled [of "init 800 600" 100 100 0 0 "\<lambda>n. 3 / 4"]
      onClick_disabled [of "onMouseDown 0 100 100 (onPauseClick (init 800 600))" 100 100 0 0
        "\<lambda>n. 3 / 4"]
    by simp
qed

section \<open>Screen to world and back\<close>

lemma rnd_near: "\<bar>x\<bar> \<le> 536870912 \<Longrightarrow> \<bar>rnd x - x\<bar> \<le> 1 / 8388608"
proof -
  have "e \<le> 1 / 8388608" if "9007199254740992 * e \<le> a + 1" and "a \<le> 536870912"
    for e a :: real
    using that by linarith
  then show "\<bar>x\<bar> \<le> 536870912 \<Longrightarrow> \<bar>rnd x - x\<bar> \<le> 1 / 8388608"
    using rnd_error_scaled [of x] by blast
qed

lemma abs_divide_le: "1 \<le> z \<Longrightarrow> \<bar>a / z\<bar> \<le> \<bar>a :: real\<bar>"
proof -
  assume z: "1 \<le> z"
  have "\<bar>a\<bar> / z \<le> \<bar>a\<bar> / 1"
    by (rule divide_left_mono) (use z in simp_all)
  with z show ?thesis by simp
qed

text \<open>
  The round trip of one coordinate: the cell \<open>w\<close> of the screen point \<open>sx\<close> and the
  pixel \<open>\<lfloor>t\<rfloor>\<close> where the cell is drawn, every operation rounded.
\<close>

lemma roundtrip_bound:
  fixes c z :: real and sx :: int
  assumes z: "1 \<le> z" "z \<le> 50" and c: "\<bar>c\<bar> \<le> 2 ^ 20" and s: "\<bar>sx\<bar> \<le> 2 ^ 20"
  defines "w \<equiv> \<lfloor>fadd c (fdiv (real_of_int sx) z)\<rfloor>"
  defines "t \<equiv> fmul (fsub (real_of_int w) c) z"
  shows "0 \<le> sx - \<lfloor>t\<rfloor>" and "real_of_int (sx - \<lfloor>t\<rfloor>) < z + 1 + 1 / 2 ^ 15"
proof -
  define r where "r = real_of_int sx / z"
  define q where "q = rnd r"
  define u where "u = rnd (c + q)"
  define d where "d = rnd (real_of_int w - c)"
  have w: "w = \<lfloor>u\<rfloor>" by (simp add: w_def u_def q_def r_def fadd_def fdiv_def)
  have t: "t = rnd (d * z)" by (simp add: t_def d_def fmul_def fsub_def)
  have z0: "0 < z" using z by simp
  have rz: "r * z = real_of_int sx" using z0 by (simp add: r_def)
  have c': "\<bar>c\<bar> \<le> 1048576" using c by simp
  have "\<bar>real_of_int sx\<bar> \<le> 1048576"
    using s by (simp flip: of_int_abs)
  with abs_divide_le [OF z(1), of "real_of_int sx"] have r: "\<bar>r\<bar> \<le> 1048576"
    by (simp add: r_def)
  have eq: "\<bar>q - r\<bar> \<le> 1 / 8388608"
    unfolding q_def by (rule rnd_near) (use r in linarith)
  have eu: "\<bar>u - (c + q)\<bar> \<le> 1 / 8388608"
    unfolding u_def by (rule rnd_near) (use r c' eq in linarith)
  have w1: "real_of_int w \<le> u" unfolding w by (rule of_int_floor_le)
  have w2: "u < real_of_int w + 1" unfolding w by linarith
  have ed: "\<bar>d - (real_of_int w - c)\<bar> \<le> 1 / 8388608"
    unfolding d_def by (rule rnd_near) (use r c' eq eu w1 w2 in linarith)
  have dabs: "\<bar>d\<bar> \<le> 8388608"
    using r c' eq eu w1 w2 ed by linarith
  have "\<bar>d * z\<bar> = \<bar>d\<bar> * z" using z0 by (simp add: abs_mult)
  also have "\<dots> \<le> 8388608 * 50"
    by (rule mult_mono) (use dabs z in simp_all)
  finally have et: "\<bar>t - d * z\<bar> \<le> 1 / 8388608"
    unfolding t by (intro rnd_near) simp
  \<comment> \<open>the pixel is not to the right of the point\<close>
  have "d \<le> r + 3 / 8388608"
    using eq eu ed w1 by linarith
  then have "d * z \<le> (r + 3 / 8388608) * z"
    using z0 by (simp only: mult_le_cancel_right_pos)
  also have "\<dots> = real_of_int sx + 3 / 8388608 * z"
    using rz by (simp add: algebra_simps)
  finally have up: "t < real_of_int sx + 1"
    using et z by linarith
  have "real_of_int \<lfloor>t\<rfloor> \<le> t" by (rule of_int_floor_le)
  with up have "real_of_int \<lfloor>t\<rfloor> < real_of_int sx + 1" by linarith
  then have "real_of_int \<lfloor>t\<rfloor> < real_of_int (sx + 1)" by simp
  then have "\<lfloor>t\<rfloor> < sx + 1" by (simp only: of_int_less_iff)
  then show "0 \<le> sx - \<lfloor>t\<rfloor>" by simp
  \<comment> \<open>and less than a cell and a pixel to the left\<close>
  have "r - 1 - 3 / 8388608 < d"
    using eq eu ed w2 by linarith
  then have "(r - 1 - 3 / 8388608) * z < d * z"
    using z0 by (simp only: mult_less_cancel_right_pos)
  moreover have "(r - 1 - 3 / 8388608) * z = real_of_int sx - z - 3 / 8388608 * z"
    using rz by (simp add: algebra_simps)
  ultimately have lo: "real_of_int sx - z - 151 / 8388608 < t"
    using et z by linarith
  have "t < real_of_int \<lfloor>t\<rfloor> + 1" by linarith
  with lo have "real_of_int sx - real_of_int \<lfloor>t\<rfloor> < z + 1 + 151 / 8388608"
    by linarith
  then show "real_of_int (sx - \<lfloor>t\<rfloor>) < z + 1 + 1 / 2 ^ 15"
    by simp
qed

text \<open>
  Claim C5, as the code has it. For every camera state with zoom in \<open>[1, 50]\<close> and
  offsets of absolute value at most \<open>2^20\<close>, and every integer screen point \<open>(sx, sy)\<close>
  with coordinates of absolute value at most \<open>2^20\<close>, mapping the point to its cell
  (\<open>wx = floor (cameraX + sx / zoom)\<close>) and the cell back to the screen
  (\<open>floor ((wx - cameraX) * zoom)\<close>), every operation rounded as the script does, lands
  at or before the point and less than \<open>zoom + 1 + 2^-15\<close> away: each component of the
  difference lies in \<open>[0, zoom + 1 + 2^-15)\<close>.
\<close>

theorem screen_world_roundtrip:
  assumes "1 \<le> zoom s" and "zoom s \<le> 50"
    and "\<bar>cameraX s\<bar> \<le> 2 ^ 20" and "\<bar>cameraY s\<bar> \<le> 2 ^ 20"
    and "\<bar>sx\<bar> \<le> 2 ^ 20" and "\<bar>sy\<bar> \<le> 2 ^ 20"
  shows "0 \<le> sx - drawGrid_sx s (onClick_wx s (real_of_int sx))
       \<and> real_of_int (sx - drawGrid_sx s (onClick_wx s (real_of_int sx))) < zoom s + 1 + 1 / 2 ^ 15
       \<and> 0 \<le> sy - drawGrid_sy s (onClick_wy s (real_of_int sy))
       \<and> real_of_int (sy - drawGrid_sy s (onClick_wy s (real_of_int sy))) < zoom s + 1 + 1 / 2 ^ 15"
  unfolding drawGrid_sx_def drawGrid_sy_def onClick_wx_def onClick_wy_def
  using roundtrip_bound [OF assms(1,2,3,5)] roundtrip_bound [OF assms(1,2,4,6)]
  by simp

text \<open>The run \<open>zoomedOut\<close>: the drag moves the camera to \<open>-40.5\<close>, and each wheel step
  out with the pointer at the corner keeps the offsets and lowers the zoom, down to 1.\<close>

lemma reachable_run: "reachable s \<Longrightarrow> reachable (run es s)"
  unfolding run_def by (induction es arbitrary: s) (simp_all add: reachable.step)

lemma rnd_halves_numeral:
  "numeral n < (2::int) ^ 53 \<Longrightarrow> rnd (numeral n / 2) = numeral n / 2"
  "numeral n < (2::int) ^ 53 \<Longrightarrow> rnd (- (numeral n / 2)) = - (numeral n / 2)"
  using rnd_halves [of "numeral n"] rnd_halves [of "- numeral n"] by simp_all

lemma rnd_half: "rnd (1 / 2) = 1 / 2" "rnd (- (1 / 2)) = - (1 / 2)"
  using rnd_halves [of 1] rnd_halves [of "- 1"] by simp_all

lemma dragged_fields:
  "cameraX (onMouseUp 0 (onMouseMove 105 100 (onMouseDown 0 100 100 (init w h)))) = - (81 / 2)"
  "cameraY (onMouseUp 0 (onMouseMove 105 100 (onMouseDown 0 100 100 (init w h)))) = - 30"
  "zoom (onMouseUp 0 (onMouseMove 105 100 (onMouseDown 0 100 100 (init w h)))) = 10"
  by (simp_all add: onMouseUp_def onMouseMove_def onMouseDown_def Let_def init_fields zoom_init
      fsub_def fdiv_def rnd_numeral rnd_neg_numeral rnd_0 rnd_half rnd_halves_numeral)

lemma wheel_at_corner:
  assumes "cameraX s = - (81 / 2)" and "cameraY s = - 30"
  shows "onWheel 0 0 0 0 1 s
           = s\<lparr>zoom := min 50 (max 1 (rnd (zoom s * (8106479329266893 / 9007199254740992))))\<rparr>"
  by (simp add: onWheel_def Let_def assms fsub_def fadd_def fdiv_def fmul_def rnd_0 rnd_9_10
      rnd_neg_numeral rnd_halves_numeral)

lemma zoom_out_step:
  assumes "1 \<le> z" and "z \<le> b"
  shows "min 50 (max 1 (rnd (z * (8106479329266893 / 9007199254740992))))
           \<le> max 1 (b * (9001 / 10000))"
proof -
  define y where "y = z * (8106479329266893 / 9007199254740992)"
  have y: "0 \<le> y" using assms(1) by (simp add: y_def)
  have lin: "v \<le> b * (9001 / 10000)"
    if "9007199254740992 * e \<le> y + 1" and "v - y \<le> e"
      and "y = z * (8106479329266893 / 9007199254740992)" and "1 \<le> z" and "z \<le> b"
    for v e :: real
    using that by linarith
  have e: "9007199254740992 * \<bar>rnd y - y\<bar> \<le> y + 1"
    using rnd_error_scaled [of y] y by simp
  have "rnd y - y \<le> \<bar>rnd y - y\<bar>" by (rule abs_ge_self)
  with e have "rnd y \<le> b * (9001 / 10000)"
    using y_def assms by (rule lin)
  then have "max 1 (rnd y) \<le> max 1 (b * (9001 / 10000))" by (rule max.mono [OF order_refl])
  moreover have "min 50 (max 1 (rnd y)) \<le> max 1 (rnd y)" by (rule min.cobounded2)
  ultimately show ?thesis unfolding y_def by (rule order_trans [rotated])
qed

lemma small_power: "10 * (9001 / 10000 :: real) ^ 22 < 1"
  by (simp add: power_divide)

lemma zoom_after_wheels:
  assumes "cameraX s = - (81 / 2)" and "cameraY s = - 30" and "1 \<le> zoom s" and "zoom s \<le> b"
  shows "cameraX (run (replicate n (Wheel 0 0 0 0 1)) s) = - (81 / 2)
       \<and> cameraY (run (replicate n (Wheel 0 0 0 0 1)) s) = - 30
       \<and> 1 \<le> zoom (run (replicate n (Wheel 0 0 0 0 1)) s)
       \<and> zoom (run (replicate n (Wheel 0 0 0 0 1)) s) \<le> max 1 (b * (9001 / 10000) ^ n)"
  using assms
proof (induction n arbitrary: s b)
  case 0
  then show ?case by (simp add: run_def)
next
  case (Suc n)
  let ?s = "onWheel 0 0 0 0 1 s"
  have s': "?s = s\<lparr>zoom := min 50 (max 1 (rnd (zoom s * (8106479329266893 / 9007199254740992))))\<rparr>"
    using Suc.prems(1,2) by (rule wheel_at_corner)
  have z: "zoom ?s \<le> max 1 (b * (9001 / 10000))"
    unfolding s' using zoom_out_step [OF Suc.prems(3,4)] by simp
  have z1: "1 \<le> zoom ?s" unfolding s' by simp
  have c: "cameraX ?s = - (81 / 2)" "cameraY ?s = - 30"
    unfolding s' using Suc.prems(1,2) by simp_all
  note ih = Suc.IH [OF c z1 z]
  have "max 1 (max 1 (b * (9001 / 10000)) * (9001 / 10000) ^ n)
          \<le> max 1 (b * (9001 / 10000) ^ Suc n)"
  proof -
    have p: "(9001 / 10000 :: real) ^ n \<le> 1" by (rule power_le_one) simp_all
    have p0: "0 \<le> (9001 / 10000 :: real) ^ n" by simp
    show ?thesis
    proof (cases "1 \<le> b * (9001 / 10000)")
      case True
      then show ?thesis by (simp add: max_def mult.assoc)
    next
      case False
      then have "max 1 (b * (9001 / 10000)) = 1" by (simp add: max_def)
      with p show ?thesis by simp
    qed
  qed
  with ih show ?case
    by (simp add: run_def) linarith
qed

lemma zoomedOut_state:
  "cameraX (run zoomedOut (init 800 600)) = - (81 / 2) \<and> zoom (run zoomedOut (init 800 600)) = 1"
proof -
  let ?d = "onMouseUp 0 (onMouseMove 105 100 (onMouseDown 0 100 100 (init 800 600)))"
  have r: "run zoomedOut (init 800 600) = run (replicate 22 (Wheel 0 0 0 0 1)) ?d"
    by (simp add: zoomedOut_def run_def)
  have "zoom (run (replicate 22 (Wheel 0 0 0 0 1)) ?d) \<le> max 1 (10 * (9001 / 10000) ^ 22)"
    using zoom_after_wheels [of ?d 10 22] by (simp add: dragged_fields)
  also have "\<dots> = 1" using small_power by (simp add: max_def)
  finally show ?thesis
    using zoom_after_wheels [of ?d 10 22] by (simp add: r dragged_fields)
qed

text \<open>
  The bound \<open>[0, zoom)\<close> of the claim fails. After a drag by five pixels at zoom 10 and
  22 wheel steps out, the camera is at \<open>-40.5\<close> with zoom 1; the screen point \<open>0\<close> is in
  cell \<open>-41\<close>, which is drawn at \<open>floor (-0.5) = -1\<close>: the difference is 1, not below
  the zoom. All these values are exact in binary64.
\<close>

theorem screen_world_roundtrip_counterexample:
  "reachable (run zoomedOut (init 800 600))
   \<and> 1 \<le> zoom (run zoomedOut (init 800 600))
   \<and> zoom (run zoomedOut (init 800 600)) \<le> 50
   \<and> 0 - drawGrid_sx (run zoomedOut (init 800 600))
           (onClick_wx (run zoomedOut (init 800 600)) 0) = 1
   \<and> \<not> real_of_int (0 - drawGrid_sx (run zoomedOut (init 800 600))
           (onClick_wx (run zoomedOut (init 800 600)) 0))
         < zoom (run zoomedOut (init 800 600))"
proof -
  have r: "reachable (run zoomedOut (init 800 600))"
    by (rule reachable_run) (rule reachable.start)
  have w: "onClick_wx (run zoomedOut (init 800 600)) 0 = - 41"
    unfolding onClick_wx_def using zoomedOut_state
    by (simp add: fadd_def fdiv_def rnd_0 rnd_halves_numeral)
  have d: "drawGrid_sx (run zoomedOut (init 800 600)) (- 41) = - 1"
    unfolding drawGrid_sx_def using zoomedOut_state
    by (simp add: fsub_def fmul_def rnd_halves_numeral rnd_half)
  show ?thesis
    using r zoomedOut_state by (simp add: w d)
qed

text \<open>At the start (zoom 10) the screen point 25 is in cell \<open>-38\<close>, drawn at 20.\<close>

theorem screen_world_roundtrip_witness:
  "1 \<le> zoom (init 800 600) \<and> zoom (init 800 600) \<le> 50
   \<and> \<bar>cameraX (init 800 600)\<bar> \<le> 2 ^ 20 \<and> \<bar>cameraY (init 800 600)\<bar> \<le> 2 ^ 20
   \<and> \<bar>25 :: int\<bar> \<le> 2 ^ 20
   \<and> onClick_wx (init 800 600) 25 = - 38
   \<and> drawGrid_sx (init 800 600) (- 38) = 20
   \<and> 0 \<le> 25 - drawGrid_sx (init 800 600) (onClick_wx (init 800 600) 25)
   \<and> real_of_int (25 - drawGrid_sx (init 800 600) (onClick_wx (init 800 600) 25))
       < zoom (init 800 600) + 1 + 1 / 2 ^ 15"
proof -
  have z: "1 \<le> zoom (init 800 600)" "zoom (init 800 600) \<le> 50"
    "\<bar>cameraX (init 800 600)\<bar> \<le> 2 ^ 20" "\<bar>cameraY (init 800 600)\<bar> \<le> 2 ^ 20"
    "\<bar>25 :: int\<bar> \<le> 2 ^ 20"
    by (simp_all add: zoom_init init_fields)
  have w: "onClick_wx (init 800 600) 25 = - 38"
    by (simp add: onClick_wx_def init_fields zoom_init fadd_def fdiv_def rnd_halves_numeral)
  have d: "drawGrid_sx (init 800 600) (- 38) = 20"
    by (simp add: drawGrid_sx_def init_fields zoom_init fsub_def fmul_def rnd_numeral)
  show ?thesis
    using z w d screen_world_roundtrip [OF z(1,2,3,4) z(5) z(5)] by simp
qed

section \<open>The simulation clock\<close>

lemma loop_fields:
  "paused (loop t s) = paused s" "delay (loop t s) = delay s"
  "zoom (loop t s) = zoom s" "cameraX (loop t s) = cameraX s" "cameraY (loop t s) = cameraY s"
  by (simp_all add: loop_def Let_def)

lemma loop_aliveCells:
  "aliveCells (loop t s) =
     (if \<not> paused s \<and> t - (if lastFrame s = 0 then t else lastFrame s) > real_of_int (delay s)
      then nextGen (aliveCells s) else aliveCells s)"
  by (simp add: loop_def Let_def)

lemma loop_lastFrame:
  "lastFrame (loop t s) =
     (if \<not> paused s \<and> t - (if lastFrame s = 0 then t else lastFrame s) > real_of_int (delay s)
      then t else (if lastFrame s = 0 then t else lastFrame s))"
  by (simp add: loop_def Let_def)

lemma nextGen_glider_changes: "nextGen (initGlider 0 0 []) \<noteq> initGlider 0 0 []"
proof -
  have "nextGenCells [(1, 0), (2, 1), (0, 2), (1, 2), (2, 2)]
          \<noteq> [(1, 0), (2, 1), (0, 2), (1, 2), (2, 2)]"
    unfolding glider_cells_1 by simp
  then show ?thesis
    using inj_keyOf by (simp add: initGlider_keyOf nextGen_map_keyOf inj_map_eq_map del: list.map)
qed

text \<open>
  Claim C6, as the code has it. On a frame tick with timestamp \<open>t\<close>, let \<open>L\<close> be the
  timestamp of the last advance, or \<open>t\<close> itself while that timestamp is still unset (0,
  as at startup: the tick first sets it to \<open>t\<close>). If paused, the live cells are not
  advanced, whatever time has passed. If running, one generation is computed iff
  \<open>t - L > delay\<close>, and then the timestamp of the last advance becomes \<open>t\<close>; otherwise
  the live cells stay and the timestamp is \<open>L\<close>. A tick never computes more than one
  generation. With delay 0 a frame later than a set \<open>L\<close> advances once.
\<close>

theorem loop_advance:
  "(paused s \<longrightarrow> aliveCells (loop t s) = aliveCells s)
   \<and> (\<not> paused s \<and> t - (if lastFrame s = 0 then t else lastFrame s) > real_of_int (delay s)
        \<longrightarrow> aliveCells (loop t s) = nextGen (aliveCells s) \<and> lastFrame (loop t s) = t)
   \<and> (\<not> paused s \<and> \<not> t - (if lastFrame s = 0 then t else lastFrame s) > real_of_int (delay s)
        \<longrightarrow> aliveCells (loop t s) = aliveCells s
            \<and> lastFrame (loop t s) = (if lastFrame s = 0 then t else lastFrame s))
   \<and> (\<not> paused s \<and> delay s = 0 \<and> lastFrame s \<noteq> 0 \<and> lastFrame s < t
        \<longrightarrow> aliveCells (loop t s) = nextGen (aliveCells s))
   \<and> (aliveCells (loop t s) = aliveCells s \<or> aliveCells (loop t s) = nextGen (aliveCells s))
   \<and> paused (loop t s) = paused s \<and> delay (loop t s) = delay s"
  by (simp add: loop_aliveCells loop_lastFrame loop_fields)

text \<open>
  The first frame at 16 ms only sets the timestamp; the frame at 32 ms advances; it does
  not when the page was paused in between, nor does a frame at 30 ms after the delay
  was raised to 20.
\<close>

theorem loop_advance_witness:
  "lastFrame (loop 16 (init 800 600)) = 16
   \<and> aliveCells (loop 16 (init 800 600)) = aliveCells (init 800 600)
   \<and> aliveCells (loop 32 (loop 16 (init 800 600))) = nextGen (aliveCells (init 800 600))
   \<and> lastFrame (loop 32 (loop 16 (init 800 600))) = 32
   \<and> aliveCells (loop 32 (onPauseClick (loop 16 (init 800 600)))) = aliveCells (init 800 600)
   \<and> aliveCells (loop 30 (onSpeedDownClick (loop 16 (init 800 600))))
       = aliveCells (init 800 600)
   \<and> lastFrame (loop 30 (onSpeedDownClick (loop 16 (init 800 600)))) = 16"
  using loop_advance [of "init 800 600" 16] loop_advance [of "loop 16 (init 800 600)" 32]
    loop_advance [of "onPauseClick (loop 16 (init 800 600))" 32]
    loop_advance [of "onSpeedDownClick (loop 16 (init 800 600))" 30]
  by (simp add: init_fields onPauseClick_def onSpeedDownClick_def)

text \<open>
  Measured against the stored timestamp itself the claim fails on the first frame: at
  startup the page runs with delay 0 and \<open>lastFrame = 0\<close>, so \<open>16 - lastFrame > delay\<close>,
  but the frame at 16 ms computes no generation.
\<close>

theorem loop_advance_counterexample:
  "\<not> paused (init 800 600)
   \<and> 16 - lastFrame (init 800 600) > real_of_int (delay (init 800 600))
   \<and> aliveCells (loop 16 (init 800 600)) = aliveCells (init 800 600)
   \<and> aliveCells (loop 16 (init 800 600)) \<noteq> nextGen (aliveCells (init 800 600))
   \<and> lastFrame (loop 16 (init 800 600)) = 16"
  using nextGen_glider_changes
  by (simp add: loop_aliveCells loop_lastFrame init_fields)

section \<open>The paint tool\<close>

lemma snd_paintCell: "snd (paintCell random x y st) = snd st + 1"
  by (cases st) (simp add: paintCell_def Let_def)

lemma set_paintCell:
  "k \<in> set (fst (paintCell random x y st)) \<longleftrightarrow>
     (if k = keyOf (x, y) then \<lfloor>fmul (random (snd st)) 2\<rfloor> \<noteq> 0 else k \<in> set (fst st))"
  by (cases st) (auto simp: paintCell_def Let_def Set_add_def Set_has_def Set_delete_def keyOf_def)

lemma snd_paintColumn:
  "y \<le> wy + 51 \<Longrightarrow> snd (paintColumn random x wy y st) = snd st + nat (wy + 51 - y)"
proof (induction random x wy y st rule: paintColumn.induct)
  case (1 random x wy y st)
  show ?case
  proof (cases "y \<le> wy + 50")
    case True
    then have "snd (paintColumn random x wy (y + 1) (paintCell random x y st))
                 = snd (paintCell random x y st) + nat (wy + 51 - (y + 1))"
      using "1.IH" by simp
    with True show ?thesis
      by (subst paintColumn.simps) (simp add: snd_paintCell nat_diff_distrib)
  next
    case False
    with "1.prems" show ?thesis
      by (subst paintColumn.simps) simp
  qed
qed

lemma paintColumn_other:
  "(\<forall>y'. y \<le> y' \<and> y' \<le> wy + 50 \<longrightarrow> k \<noteq> keyOf (x, y'))
   \<Longrightarrow> k \<in> set (fst (paintColumn random x wy y st)) \<longleftrightarrow> k \<in> set (fst st)"
proof (induction random x wy y st rule: paintColumn.induct)
  case (1 random x wy y st)
  show ?case
  proof (cases "y \<le> wy + 50")
    case True
    have "k \<in> set (fst (paintColumn random x wy (y + 1) (paintCell random x y st)))
            \<longleftrightarrow> k \<in> set (fst (paintCell random x y st))"
      using "1.IH" [OF True] "1.prems" by simp
    moreover have "k \<noteq> keyOf (x, y)"
      using "1.prems" True by simp
    ultimately show ?thesis
      using True by (subst paintColumn.simps) (simp add: set_paintCell)
  next
    case False
    then show ?thesis
      by (subst paintColumn.simps) simp
  qed
qed

lemma paintColumn_cell:
  "y \<le> y' \<Longrightarrow> y' \<le> wy + 50
   \<Longrightarrow> keyOf (x, y') \<in> set (fst (paintColumn random x wy y st))
       \<longleftrightarrow> \<lfloor>fmul (random (snd st + nat (y' - y))) 2\<rfloor> \<noteq> 0"
proof (induction random x wy y st rule: paintColumn.induct)
  case (1 random x wy y st)
  from "1.prems" have le: "y \<le> wy + 50" by simp
  show ?case
  proof (cases "y' = y")
    case True
    have "keyOf (x, y) \<in> set (fst (paintColumn random x wy (y + 1) (paintCell random x y st)))
            \<longleftrightarrow> keyOf (x, y) \<in> set (fst (paintCell random x y st))"
      by (rule paintColumn_other) (simp add: keyOf_inject)
    with True le show ?thesis
      by (subst paintColumn.simps) (simp add: set_paintCell)
  next
    case False
    with "1.prems" have "y + 1 \<le> y'" by simp
    then have "keyOf (x, y') \<in> set (fst (paintColumn random x wy (y + 1) (paintCell random x y st)))
            \<longleftrightarrow> \<lfloor>fmul (random (snd (paintCell random x y st) + nat (y' - (y + 1)))) 2\<rfloor> \<noteq> 0"
      using "1.IH" [OF le] "1.prems" by simp
    moreover have "snd (paintCell random x y st) + nat (y' - (y + 1)) = snd st + nat (y' - y)"
      using \<open>y + 1 \<le> y'\<close> by (simp add: snd_paintCell nat_diff_distrib)
    ultimately show ?thesis
      using le by (subst paintColumn.simps) simp
  qed
qed

lemma snd_paintSquare:
  "x \<le> wx + 51 \<Longrightarrow> snd (paintSquare random wx wy x st) = snd st + 101 * nat (wx + 51 - x)"
proof (induction random wx wy x st rule: paintSquare.induct)
  case (1 random wx wy x st)
  show ?case
  proof (cases "x \<le> wx + 50")
    case True
    then have "snd (paintSquare random wx wy (x + 1) (paintColumn random x wy (wy - 50) st))
                 = snd (paintColumn random x wy (wy - 50) st) + 101 * nat (wx + 51 - (x + 1))"
      using "1.IH" by simp
    moreover have "snd (paintColumn random x wy (wy - 50) st) = snd st + 101"
      by (simp add: snd_paintColumn)
    moreover have "nat (wx + 51 - x) = nat (wx + 51 - (x + 1)) + 1"
      using True by simp
    ultimately show ?thesis
      using True by (subst paintSquare.simps) simp
  next
    case False
    with "1.prems" show ?thesis
      by (subst paintSquare.simps) simp
  qed
qed

lemma paintSquare_other:
  "(\<forall>x' y'. x \<le> x' \<and> x' \<le> wx + 50 \<and> wy - 50 \<le> y' \<and> y' \<le> wy + 50 \<longrightarrow> k \<noteq> keyOf (x', y'))
   \<Longrightarrow> k \<in> set (fst (paintSquare random wx wy x st)) \<longleftrightarrow> k \<in> set (fst st)"
proof (induction random wx wy x st rule: paintSquare.induct)
  case (1 random wx wy x st)
  show ?case
  proof (cases "x \<le> wx + 50")
    case True
    have "k \<in> set (fst (paintSquare random wx wy (x + 1) (paintColumn random x wy (wy - 50) st)))
            \<longleftrightarrow> k \<in> set (fst (paintColumn random x wy (wy - 50) st))"
      using "1.IH" [OF True] "1.prems" by simp
    moreover have "k \<in> set (fst (paintColumn random x wy (wy - 50) st)) \<longleftrightarrow> k \<in> set (fst st)"
      by (rule paintColumn_other) (use "1.prems" True in simp)
    ultimately show ?thesis
      using True by (subst paintSquare.simps) simp
  next
    case False
    then show ?thesis
      by (subst paintSquare.simps) simp
  qed
qed

lemma paintSquare_cell:
  "x \<le> x' \<Longrightarrow> x' \<le> wx + 50 \<Longrightarrow> wy - 50 \<le> y' \<Longrightarrow> y' \<le> wy + 50
   \<Longrightarrow> keyOf (x', y') \<in> set (fst (paintSquare random wx wy x st))
       \<longleftrightarrow> \<lfloor>fmul (random (snd st + 101 * nat (x' - x) + nat (y' - (wy - 50)))) 2\<rfloor> \<noteq> 0"
proof (induction random wx wy x st rule: paintSquare.induct)
  case (1 random wx wy x st)
  from "1.prems" have le: "x \<le> wx + 50" by simp
  let ?st = "paintColumn random x wy (wy - 50) st"
  show ?case
  proof (cases "x' = x")
    case True
    have "keyOf (x, y') \<in> set (fst (paintSquare random wx wy (x + 1) ?st))
            \<longleftrightarrow> keyOf (x, y') \<in> set (fst ?st)"
      by (rule paintSquare_other) (simp add: keyOf_inject)
    moreover have "keyOf (x, y') \<in> set (fst ?st)
            \<longleftrightarrow> \<lfloor>fmul (random (snd st + nat (y' - (wy - 50)))) 2\<rfloor> \<noteq> 0"
      using "1.prems" by (simp add: paintColumn_cell)
    ultimately show ?thesis
      using True le by (subst paintSquare.simps) simp
  next
    case False
    with "1.prems" have x': "x + 1 \<le> x'" by simp
    then have "keyOf (x', y') \<in> set (fst (paintSquare random wx wy (x + 1) ?st))
            \<longleftrightarrow> \<lfloor>fmul (random (snd ?st + 101 * nat (x' - (x + 1)) + nat (y' - (wy - 50)))) 2\<rfloor> \<noteq> 0"
      using "1.IH" [OF le] "1.prems" by simp
    moreover have "snd ?st + 101 * nat (x' - (x + 1)) + nat (y' - (wy - 50))
                     = snd st + 101 * nat (x' - x) + nat (y' - (wy - 50))"
    proof -
      have "snd ?st = snd st + 101"
        by (simp add: snd_paintColumn)
      moreover have "nat (x' - x) = nat (x' - (x + 1)) + 1"
        using x' by simp
      ultimately show ?thesis by simp
    qed
    ultimately show ?thesis
      using le by (subst paintSquare.simps) simp
  qed
qed

text \<open>Different cells of a square read different draws.\<close>

lemma draw_index_inject:
  assumes sq1: "wx - 50 \<le> x1 \<and> x1 \<le> wx + 50 \<and> wy - 50 \<le> y1 \<and> y1 \<le> wy + 50"
    and sq2: "wx - 50 \<le> x2 \<and> x2 \<le> wx + 50 \<and> wy - 50 \<le> y2 \<and> y2 \<le> wy + 50"
    and eq: "101 * nat (x1 - (wx - 50)) + nat (y1 - (wy - 50))
               = 101 * nat (x2 - (wx - 50)) + nat (y2 - (wy - 50))"
  shows "x1 = x2 \<and> y1 = y2"
proof -
  define a1 b1 a2 b2 where "a1 = nat (x1 - (wx - 50))" and "b1 = nat (y1 - (wy - 50))"
    and "a2 = nat (x2 - (wx - 50))" and "b2 = nat (y2 - (wy - 50))"
  have b: "b1 < 101" "b2 < 101"
    using sq1 sq2 unfolding b1_def b2_def by linarith+
  have e: "101 * a1 + b1 = 101 * a2 + b2"
    using eq by (simp add: a1_def b1_def a2_def b2_def)
  have "(101 * a1 + b1) div 101 = a1" "(101 * a2 + b2) div 101 = a2"
    using b by simp_all
  with e have "a1 = a2" by simp
  with e have "a1 = a2 \<and> b1 = b2" by simp
  then show ?thesis
    using sq1 sq2 unfolding a1_def b1_def a2_def b2_def by linarith
qed

lemma onClick_aliveCells:
  "paused s \<Longrightarrow> \<not> isDragging s
   \<Longrightarrow> aliveCells (onClick clientX clientY rectLeft rectTop random s)
       = fst (paintSquare random
                \<lfloor>fadd (cameraX s) (fdiv (fsub clientX rectLeft) (zoom s))\<rfloor>
                \<lfloor>fadd (cameraY s) (fdiv (fsub clientY rectTop) (zoom s))\<rfloor>
                (\<lfloor>fadd (cameraX s) (fdiv (fsub clientX rectLeft) (zoom s))\<rfloor> - 50)
                (aliveCells s, 0))"
  by (simp add: onClick_def onClick_wx_def onClick_wy_def Let_def)

lemma onClick_frame:
  "(onClick clientX clientY rectLeft rectTop random s)\<lparr>aliveCells := aliveCells s\<rparr> = s"
  by (simp add: onClick_def Let_def)

text \<open>
  Claim C8. When a click is processed while paused and not dragging, with the anchor
  \<open>(wx, wy) = (floor (cameraX + mx / zoom), floor (cameraY + my / zoom))\<close>, computed as
  the script does from \<open>mx = clientX - rect.left\<close> and \<open>my = clientY - rect.top\<close>: every
  cell of the 101 by 101 square \<open>wx - 50 \<le> x \<le> wx + 50\<close>, \<open>wy - 50 \<le> y \<le> wy + 50\<close> is live
  afterwards iff its own draw \<open>floor (Math.random() * 2)\<close> is not 0, whatever it was
  before (a live cell that draws dead is removed); every cell outside the square keeps
  its liveness; nothing else of the state changes. The draws are any sequence of
  numbers; the loops visit the square column by column, so the cell \<open>(x, y)\<close> reads the
  draw number \<open>101 * (x - (wx - 50)) + (y - (wy - 50))\<close>, and different cells of the
  square read different draws.
\<close>

theorem onClick_paints:
  assumes "paused s" and "\<not> isDragging s"
  shows
    "(let wx = \<lfloor>fadd (cameraX s) (fdiv (fsub clientX rectLeft) (zoom s))\<rfloor>;
          wy = \<lfloor>fadd (cameraY s) (fdiv (fsub clientY rectTop) (zoom s))\<rfloor>;
          s' = onClick clientX clientY rectLeft rectTop random s
      in (wx - 50 \<le> x \<and> x \<le> wx + 50 \<and> wy - 50 \<le> y \<and> y \<le> wy + 50
            \<longrightarrow> (Set_has (cellKey (Num x) (Num y)) (aliveCells s')
                 \<longleftrightarrow> \<lfloor>fmul (random (101 * nat (x - (wx - 50)) + nat (y - (wy - 50)))) 2\<rfloor> \<noteq> 0))
         \<and> (\<not> (wx - 50 \<le> x \<and> x \<le> wx + 50 \<and> wy - 50 \<le> y \<and> y \<le> wy + 50)
            \<longrightarrow> (Set_has (cellKey (Num x) (Num y)) (aliveCells s')
                 \<longleftrightarrow> Set_has (cellKey (Num x) (Num y)) (aliveCells s)))
         \<and> s'\<lparr>aliveCells := aliveCells s\<rparr> = s
         \<and> (wx - 50 \<le> x1 \<and> x1 \<le> wx + 50 \<and> wy - 50 \<le> y1 \<and> y1 \<le> wy + 50
            \<and> wx - 50 \<le> x2 \<and> x2 \<le> wx + 50 \<and> wy - 50 \<le> y2 \<and> y2 \<le> wy + 50
            \<and> 101 * nat (x1 - (wx - 50)) + nat (y1 - (wy - 50))
                = 101 * nat (x2 - (wx - 50)) + nat (y2 - (wy - 50))
            \<longrightarrow> x1 = x2 \<and> y1 = y2))"
proof -
  define wx where "wx = \<lfloor>fadd (cameraX s) (fdiv (fsub clientX rectLeft) (zoom s))\<rfloor>"
  define wy where "wy = \<lfloor>fadd (cameraY s) (fdiv (fsub clientY rectTop) (zoom s))\<rfloor>"
  define new where "new = aliveCells (onClick clientX clientY rectLeft rectTop random s)"
  have new: "new = fst (paintSquare random wx wy (wx - 50) (aliveCells s, 0))"
    unfolding new_def wx_def wy_def using assms by (rule onClick_aliveCells)
  have k: "cellKey (Num x) (Num y) = keyOf (x, y)"
    by (simp add: keyOf_def)
  have inside: "Set_has (cellKey (Num x) (Num y)) new
                  \<longleftrightarrow> \<lfloor>fmul (random (101 * nat (x - (wx - 50)) + nat (y - (wy - 50)))) 2\<rfloor> \<noteq> 0"
    if "wx - 50 \<le> x \<and> x \<le> wx + 50 \<and> wy - 50 \<le> y \<and> y \<le> wy + 50"
    using that paintSquare_cell [of "wx - 50" x wx wy y random "(aliveCells s, 0)"]
    by (simp add: new k Set_has_def)
  have outside: "Set_has (cellKey (Num x) (Num y)) new
                  \<longleftrightarrow> Set_has (cellKey (Num x) (Num y)) (aliveCells s)"
    if "\<not> (wx - 50 \<le> x \<and> x \<le> wx + 50 \<and> wy - 50 \<le> y \<and> y \<le> wy + 50)"
  proof -
    have "\<forall>x' y'. wx - 50 \<le> x' \<and> x' \<le> wx + 50 \<and> wy - 50 \<le> y' \<and> y' \<le> wy + 50
            \<longrightarrow> keyOf (x, y) \<noteq> keyOf (x', y')"
      using that by (auto simp: keyOf_inject)
    then show ?thesis
      using paintSquare_other [of "wx - 50" wx wy "keyOf (x, y)" random "(aliveCells s, 0)"]
      by (simp add: new k Set_has_def)
  qed
  have inj: "x1 = x2 \<and> y1 = y2"
    if "wx - 50 \<le> x1 \<and> x1 \<le> wx + 50 \<and> wy - 50 \<le> y1 \<and> y1 \<le> wy + 50
        \<and> wx - 50 \<le> x2 \<and> x2 \<le> wx + 50 \<and> wy - 50 \<le> y2 \<and> y2 \<le> wy + 50
        \<and> 101 * nat (x1 - (wx - 50)) + nat (y1 - (wy - 50))
            = 101 * nat (x2 - (wx - 50)) + nat (y2 - (wy - 50))"
    using that draw_index_inject [of wx x1 wy y1 x2 y2] by blast
  show ?thesis
    unfolding Let_def wx_def [symmetric] wy_def [symmetric] new_def [symmetric]
    using inside outside inj
      onClick_frame [where clientX = clientX and clientY = clientY and rectLeft = rectLeft
        and rectTop = rectTop and random = random and s = s]
    by blast
qed

text \<open>
  The start page after one wheel step out at the pointer \<open>(100, 100)\<close>, paused, and a
  click at the same point. The world coordinate under the pointer is
  \<open>-30.000000000000004\<close>, so the anchor is \<open>(-31, -20)\<close> and the square has the columns
  \<open>-81\<close> to \<open>19\<close>. With all draws \<open>1/4\<close> the glider cell \<open>(1, 0)\<close> is cleared; with all
  draws \<open>3/4\<close> the cell \<open>(-81, 0)\<close> of the leftmost column is live, and the cell
  \<open>(20, 0)\<close>, outside the square, stays dead.
\<close>

theorem onClick_paints_witness:
  "paused (onPauseClick (onWheel 100 100 0 0 1 (init 800 600)))
   \<and> \<not> isDragging (onPauseClick (onWheel 100 100 0 0 1 (init 800 600)))
   \<and> \<lfloor>fadd (cameraX (onPauseClick (onWheel 100 100 0 0 1 (init 800 600))))
         (fdiv (fsub 100 0) (zoom (onPauseClick (onWheel 100 100 0 0 1 (init 800 600)))))\<rfloor> = - 31
   \<and> \<lfloor>fadd (cameraY (onPauseClick (onWheel 100 100 0 0 1 (init 800 600))))
         (fdiv (fsub 100 0) (zoom (onPauseClick (onWheel 100 100 0 0 1 (init 800 600)))))\<rfloor> = - 20
   \<and> Set_has (cellKey (Num 1) (Num 0))
         (aliveCells (onPauseClick (onWheel 100 100 0 0 1 (init 800 600))))
   \<and> \<not> Set_has (cellKey (Num 1) (Num 0))
         (aliveCells (onClick 100 100 0 0 (\<lambda>n. 1 / 4)
            (onPauseClick (onWheel 100 100 0 0 1 (init 800 600)))))
   \<and> Set_has (cellKey (Num (- 81)) (Num 0))
         (aliveCells (onClick 100 100 0 0 (\<lambda>n. 3 / 4)
            (onPauseClick (onWheel 100 100 0 0 1 (init 800 600)))))
   \<and> \<not> Set_has (cellKey (Num 20) (Num 0))
         (aliveCells (onClick 100 100 0 0 (\<lambda>n. 3 / 4)
            (onPauseClick (onWheel 100 100 0 0 1 (init 800 600)))))"
proof -
  let ?s = "onPauseClick (onWheel 100 100 0 0 1 (init 800 600))"
  have f: "zoom ?s = 9" "cameraX ?s = - (1446468630318649 / 35184372088832)"
    "cameraY ?s = - (8756999275442631 / 281474976710656)"
    "aliveCells ?s = initGlider 0 0 []"
    by (simp_all add: onPauseClick_def wheelOut_fields)
  have p: "paused ?s" "\<not> isDragging ?s"
    by (simp_all add: onPauseClick_def wheelOut_fields)
  have w: "\<lfloor>fadd (cameraX ?s) (fdiv (fsub 100 0) (zoom ?s))\<rfloor> = - 31"
    "\<lfloor>fadd (cameraY ?s) (fdiv (fsub 100 0) (zoom ?s))\<rfloor> = - 20"
    by (simp_all add: f fadd_def fdiv_def fsub_def rnd_numeral rnd_neg_numeral rnd_100_9 rnd_anchorX')
  have a: "aliveCells ?s = map keyOf [(1, 0), (2, 1), (0, 2), (1, 2), (2, 2)]"
    by (simp add: f initGlider_keyOf)
  have g: "Set_has (cellKey (Num 1) (Num 0)) (aliveCells ?s)"
    "\<not> Set_has (cellKey (Num 20) (Num 0)) (aliveCells ?s)"
    unfolding a by (simp_all add: cellKey_plus Set_has_keyOf del: list.map)
  have d: "\<lfloor>fmul (1 / 4) 2\<rfloor> = 0" "\<lfloor>fmul (3 / 4) 2\<rfloor> = 1"
    by (simp_all add: fmul_def rnd_half rnd_halves_numeral)
  show ?thesis
    using p w g
      onClick_paints [OF p, where clientX = 100 and rectLeft = 0 and clientY = 100
        and rectTop = 0 and x = 1 and y = 0 and random = "\<lambda>n. 1 / 4"]
      onClick_paints [OF p, where clientX = 100 and rectLeft = 0 and clientY = 100
        and rectTop = 0 and x = "- 81" and y = 0 and random = "\<lambda>n. 3 / 4"]
      onClick_paints [OF p, where clientX = 100 and rectLeft = 0 and clientY = 100
        and rectTop = 0 and x = 20 and y = 0 and random = "\<lambda>n. 3 / 4"]
    by (simp add: Let_def d)
qed

section \<open>Every key of a run is well formed\<close>

lemma goodCells_paintCell: "goodCells (fst st) \<Longrightarrow> goodCells (fst (paintCell random x y st))"
  by (cases st)
     (auto simp: paintCell_def Let_def Set_add_def Set_has_def Set_delete_def goodCells_def
        cellKey_plus wfKey_keyOf list_all_iff distinct_removeAll)

lemma goodCells_paintColumn:
  "goodCells (fst st) \<Longrightarrow> goodCells (fst (paintColumn random x wy y st))"
proof (induction random x wy y st rule: paintColumn.induct)
  case (1 random x wy y st)
  show ?case
  proof (cases "y \<le> wy + 50")
    case True
    with "1.IH" "1.prems" show ?thesis
      by (subst paintColumn.simps) (simp add: goodCells_paintCell)
  next
    case False
    with "1.prems" show ?thesis
      by (subst paintColumn.simps) simp
  qed
qed

lemma goodCells_paintSquare:
  "goodCells (fst st) \<Longrightarrow> goodCells (fst (paintSquare random wx wy x st))"
proof (induction random wx wy x st rule: paintSquare.induct)
  case (1 random wx wy x st)
  show ?case
  proof (cases "x \<le> wx + 50")
    case True
    with "1.IH" "1.prems" show ?thesis
      by (subst paintSquare.simps) (simp add: goodCells_paintColumn)
  next
    case False
    with "1.prems" show ?thesis
      by (subst paintSquare.simps) simp
  qed
qed

lemma goodCells_nextGen: "goodCells ks \<Longrightarrow> goodCells (nextGen ks)"
  using nextGen_wf(2,3) [of ks] by (simp add: goodCells_def list_all_iff)

lemma goodCells_initGlider: "goodCells (initGlider 0 0 [])"
  by (simp add: goodCells_def initGlider_keyOf wfKey_keyOf keyOf_inject)

lemma goodCells_handle: "goodCells (aliveCells s) \<Longrightarrow> goodCells (aliveCells (handle e s))"
proof (cases e)
  case (Click x y l t r)
  then show "goodCells (aliveCells s) \<Longrightarrow> ?thesis"
    using goodCells_paintSquare [of "(aliveCells s, 0)"]
    by (simp add: onClick_def Let_def)
next
  case (Frame t)
  then show "goodCells (aliveCells s) \<Longrightarrow> ?thesis"
    by (simp add: loop_aliveCells goodCells_nextGen)
next
  case (MouseMove x y)
  then show "goodCells (aliveCells s) \<Longrightarrow> ?thesis"
    by (simp add: onMouseMove_def Let_def split: option.splits)
qed (simp_all add: onResize_def resizeCanvas_def onMouseDown_def onMouseUp_def
      onMouseLeave_def onWheel_def onPauseClick_def onSpeedUpClick_def onSpeedDownClick_def
      Let_def)

lemma reachable_goodCells: "reachable s \<Longrightarrow> goodCells (aliveCells s)"
  by (induction rule: reachable.induct)
     (simp_all add: init_fields goodCells_initGlider goodCells_handle)

end
